theory Spec2Isabelle
  imports Complex_Main
begin

section \<open>JavaScript numbers and strings\<close>

text \<open>
  The renderer computes with JavaScript numbers. Pixel measurements are decimal values; the
  only special value the pagination code can meet is \<open>NaN\<close> (from \<open>parseFloat\<close> of a
  non-numeric style value, or from adding \<open>undefined\<close>). A number is therefore a rational
  (the value of a double) or \<open>NaN\<close>; arithmetic propagates \<open>NaN\<close> and every comparison
  with \<open>NaN\<close> is false. The sums of the splitter are sums of integers and exact, and so
  is taken the sum \<open>pageHeight + 5\<close>. The differences of \<open>calculatePageDimensions\<close> are
  rounded to a double at every step; that rounding belongs to the environment (\<open>fsub\<close>
  below).
\<close>

datatype number = Num rat | NaN

fun num_add :: "number \<Rightarrow> number \<Rightarrow> number" where
  "num_add (Num a) (Num b) = Num (a + b)"
| "num_add _ _ = NaN"

fun num_gt :: "number \<Rightarrow> number \<Rightarrow> bool" where
  "num_gt (Num a) (Num b) = (a > b)"
| "num_gt _ _ = False"

fun num_le :: "number \<Rightarrow> number \<Rightarrow> bool" where
  "num_le (Num a) (Num b) = (a \<le> b)"
| "num_le _ _ = False"

text \<open>
  \<open>String.prototype.trim\<close> removes white space and line terminators from both ends.
  Characters are code units in the Latin-1 range, so the no-break space is \<open>0xA0\<close>.
\<close>

definition isWhiteSpace :: "char \<Rightarrow> bool" where
  "isWhiteSpace c = ((of_char c :: nat) \<in> {9, 10, 11, 12, 13, 32, 160})"

definition trim :: "string \<Rightarrow> string" where
  "trim s = rev (dropWhile isWhiteSpace (rev (dropWhile isWhiteSpace s)))"

section \<open>Content nodes\<close>

text \<open>
  The child nodes of an editor region. An element has an integer \<open>offsetHeight\<close> and an
  \<open>outerHTML\<close>; a text node has neither (both read as \<open>undefined\<close>) and has a
  \<open>textContent\<close>. The height stored with an element is the one measured in the
  off-screen copy, which has the width, font and box metrics of the region.
\<close>

datatype node = Element int string | TextNode string

fun offsetHeight :: "node \<Rightarrow> number" where
  "offsetHeight (Element h m) = Num (of_int h)"
| "offsetHeight (TextNode t) = NaN"

text \<open>\<open>node.outerHTML || node.textContent\<close>, the piece a node adds to the overflow markup.\<close>

fun outerHTML_or_textContent :: "node \<Rightarrow> string" where
  "outerHTML_or_textContent (Element h m) = m"
| "outerHTML_or_textContent (TextNode t) = t"

text \<open>The HTML serialisation of a text node escapes four characters.\<close>

fun escapeChar :: "char \<Rightarrow> string" where
  "escapeChar c =
     (if c = CHR ''&'' then ''&amp;''
      else if c = CHR ''<'' then ''&lt;''
      else if c = CHR ''>'' then ''&gt;''
      else if (of_char c :: nat) = 160 then ''&nbsp;''
      else [c])"

fun serializeNode :: "node \<Rightarrow> string" where
  "serializeNode (Element h m) = m"
| "serializeNode (TextNode t) = concat (map escapeChar t)"

definition innerHTML :: "node list \<Rightarrow> string" where
  "innerHTML nodes = concat (map serializeNode nodes)"

definition overflowMarkup :: "node list \<Rightarrow> string" where
  "overflowMarkup nodes = concat (map outerHTML_or_textContent nodes)"

text \<open>
  A block: an element whose serialisation starts with its opening tag, as every
  \<open>outerHTML\<close> does.
\<close>

fun is_block :: "node \<Rightarrow> bool" where
  "is_block (Element h m) = (case m of [] \<Rightarrow> False | c # _ \<Rightarrow> c = CHR ''<'')"
| "is_block (TextNode t) = False"

fun blockHeight :: "node \<Rightarrow> int" where
  "blockHeight (Element h m) = h"
| "blockHeight (TextNode t) = 0"

definition totalHeight :: "node list \<Rightarrow> int" where
  "totalHeight nodes = sum_list (map blockHeight nodes)"

section \<open>Overflow splitter\<close>

text \<open>
  The search loop of \<open>extractOverflowContent\<close>: \<open>i\<close> is the loop index, \<open>None\<close> is the
  initial \<open>splitIndex = -1\<close> left unchanged.
\<close>

fun findSplit :: "node list \<Rightarrow> nat \<Rightarrow> number \<Rightarrow> number \<Rightarrow> nat option" where
  "findSplit [] i currentHeight maxHeight = None"
| "findSplit (node # rest) i currentHeight maxHeight =
     (if num_gt (num_add currentHeight (offsetHeight node)) maxHeight then Some i
      else findSplit rest (Suc i) (num_add currentHeight (offsetHeight node)) maxHeight)"

definition splitIndex :: "node list \<Rightarrow> number \<Rightarrow> nat option" where
  "splitIndex nodes maxHeight = findSplit nodes 0 (Num 0) maxHeight"

text \<open>The node that \<open>innerHTML = '<br>'\<close> creates; its height comes from the layout.\<close>

definition placeholder :: "int \<Rightarrow> node" where
  "placeholder brHeight = Element brHeight ''<br>''"

text \<open>
  \<open>extractOverflowContent(editor, maxHeight)\<close>. The result is the region's child nodes
  afterwards and the nodes whose markup (\<open>overflowMarkup\<close>) is the returned string.
  The measuring copy holds the same nodes as the region and is removed on every path.
\<close>

definition extractOverflowContent :: "int \<Rightarrow> node list \<Rightarrow> number \<Rightarrow> node list \<times> node list" where
  "extractOverflowContent brHeight nodes maxHeight =
     (case splitIndex nodes maxHeight of
        None \<Rightarrow> (nodes, [])
      | Some k \<Rightarrow>
          (let kept = take k nodes
           in (if trim (innerHTML kept) = [] then [placeholder brHeight] else kept,
               drop k nodes)))"

section \<open>Rendering environment\<close>

text \<open>
  What the program reads from the browser's layout: the \<open>scrollHeight\<close> and \<open>innerText\<close>
  of a region as functions of its child nodes (all pages are copies of one template), the
  height of a lone \<open>br\<close>, and the computed style values and header/footer heights that
  \<open>calculatePageDimensions\<close> reads from the first page (\<open>None\<close>: no such element).
  \<open>fsub a b\<close> is the difference of two doubles as the machine computes it: \<open>a - b\<close>
  rounded to a double.
\<close>

record layout =
  scrollHeight :: "node list \<Rightarrow> int"
  innerText :: "node list \<Rightarrow> string"
  brHeight :: int
  stylePageHeight :: number
  stylePagePaddingTop :: number
  stylePagePaddingBottom :: number
  styleEditorPaddingTop :: number
  styleEditorPaddingBottom :: number
  styleEditorMarginTop :: number
  styleEditorMarginBottom :: number
  headerOffsetHeight :: "int option"
  footerOffsetHeight :: "int option"
  fsub :: "rat \<Rightarrow> rat \<Rightarrow> rat"

section \<open>Document state\<close>

text \<open>
  A page element: the text of its \<open>.page-number\<close> label, the child nodes of its \<open>.editor\<close>
  region (\<open>None\<close> where \<open>querySelector\<close> finds no such element), and whether
  \<open>setupPageEvents\<close> has attached the focus and input listeners to it.
\<close>

record page =
  pageNumber :: "nat option"
  editor :: "node list option"
  wired :: bool

datatype editor_ref = PageEditor nat | DetachedEditor

datatype error = TypeError

text \<open>
  The fields of \<open>DocumentEditor\<close>, the page elements in document order, the element that
  has focus, the pending overflow-check timers (timer id, delay, page position of the
  region) with the next id \<open>setTimeout\<close> hands out, and the \<open>console.warn\<close> and
  \<open>console.error\<close> messages. The program never touches the selection; \<open>caret\<close> is the
  caret as far as the modelled steps determine it (page position of the region and offset
  among its child nodes, \<open>None\<close>: not determined), and \<open>caretOnFocus\<close> is the browser's
  rule for the offset at which the caret appears in a region that \<open>focus()\<close> gives the
  focus to.
\<close>

record session =
  documentModified :: bool
  currentFilePath :: "string option"
  currentPage :: nat
  totalPages :: nat
  selectedEditor :: "editor_ref option"
  typingTimer :: "nat option"
  pageHeight :: number
  pages :: "page list"
  activeElement :: "nat option"
  pendingChecks :: "(nat \<times> nat \<times> nat) list"
  nextTimerId :: nat
  console :: "string list"
  caret :: "(nat \<times> nat) option"
  caretOnFocus :: "node list \<Rightarrow> nat"

definition markDocumentAsModified :: "session \<Rightarrow> session" where
  "markDocumentAsModified s = s\<lparr>documentModified := True\<rparr>"

text \<open>\<open>updatePageNumbers\<close>: every label that exists shows the 1-based position.\<close>

fun renumber :: "nat \<Rightarrow> page list \<Rightarrow> page list" where
  "renumber index [] = []"
| "renumber index (p # ps) =
     (case pageNumber p of
        None \<Rightarrow> p
      | Some _ \<Rightarrow> p\<lparr>pageNumber := Some (index + 1)\<rparr>) # renumber (Suc index) ps"

definition updatePageNumbers :: "session \<Rightarrow> session" where
  "updatePageNumbers s =
     s\<lparr>pages := renumber 0 (pages s), totalPages := length (pages s)\<rparr>"

text \<open>
  \<open>updateUI\<close>: the status line and the word count are display strings derived from the
  state; only \<open>updatePageNumbers\<close> changes it.
\<close>

definition updateUI :: "session \<Rightarrow> session" where
  "updateUI s = updatePageNumbers s"

text \<open>
  \<open>el.focus()\<close> on the region of page \<open>i\<close>: the element gets focus, and the focus
  listener of a wired page records it and calls \<open>updateCurrentPage\<close>. A region that did
  not have the focus gets the caret where the browser puts it.
\<close>

definition focusEditor :: "nat \<Rightarrow> session \<Rightarrow> session" where
  "focusEditor i s =
     (let s1 = s\<lparr>activeElement := Some i,
                  caret := (if activeElement s = Some i then caret s
                            else map_option (\<lambda>nodes. (i, caretOnFocus s nodes))
                                   (editor (pages s ! i)))\<rparr>
      in if wired (pages s ! i)
         then s1\<lparr>selectedEditor := Some (PageEditor i), currentPage := i + 1\<rparr>
         else s1)"

text \<open>
  The child nodes of the region of page \<open>i\<close> are replaced. A caret in a region whose
  nodes change is no longer determined.
\<close>

definition setEditor :: "nat \<Rightarrow> node list \<Rightarrow> session \<Rightarrow> session" where
  "setEditor i nodes s =
     s\<lparr>pages := (pages s)[i := (pages s ! i)\<lparr>editor := Some nodes\<rparr>],
       caret := (case caret s of
                   None \<Rightarrow> None
                 | Some c \<Rightarrow>
                     if fst c = i \<and> editor (pages s ! i) \<noteq> Some nodes then None
                     else Some c)\<rparr>"

section \<open>Timers\<close>

definition clearTimeout :: "nat option \<Rightarrow> session \<Rightarrow> session" where
  "clearTimeout t s =
     (case t of
        None \<Rightarrow> s
      | Some tid \<Rightarrow> s\<lparr>pendingChecks := filter (\<lambda>task. fst task \<noteq> tid) (pendingChecks s)\<rparr>)"

text \<open>\<open>this.typingTimer = setTimeout(() => this.checkPageOverflow(editor), delay)\<close>\<close>

definition setTimeoutCheck :: "nat \<Rightarrow> nat \<Rightarrow> session \<Rightarrow> session" where
  "setTimeoutCheck delay i s =
     s\<lparr>pendingChecks := pendingChecks s @ [(nextTimerId s, delay, i)],
       typingTimer := Some (nextTimerId s),
       nextTimerId := Suc (nextTimerId s)\<rparr>"

definition handleEditorInput :: "nat \<Rightarrow> session \<Rightarrow> session" where
  "handleEditorInput i s =
     (let s1 = markDocumentAsModified s;
          s2 = clearTimeout (typingTimer s1) s1
      in setTimeoutCheck 500 i s2)"

text \<open>The observer callback of \<open>setupAutoPageBreak\<close> for one mutation whose target is a region.\<close>

definition observerCallback :: "nat \<Rightarrow> session \<Rightarrow> session" where
  "observerCallback i s = setTimeoutCheck 500 i (clearTimeout (typingTimer s) s)"

section \<open>Page management\<close>

text \<open>
  The body of \<open>addPage\<close> once the template (the first page) is found: copy it, clear its
  editable regions, append it, wire it, focus its region, \<open>updateUI\<close>.
\<close>

definition appendPage :: "page \<Rightarrow> session \<Rightarrow> session" where
  "appendPage template s =
     (let pageTemplate = template\<lparr>editor := map_option (\<lambda>_. []) (editor template), wired := True\<rparr>;
          s1 = s\<lparr>pages := pages s @ [pageTemplate]\<rparr>;
          s2 = (case editor pageTemplate of
                  None \<Rightarrow> s1
                | Some _ \<Rightarrow> (focusEditor (length (pages s)) s1)
                              \<lparr>selectedEditor := Some (PageEditor (length (pages s)))\<rparr>)
      in updateUI s2)"

text \<open>\<open>addPage\<close>: with no page in the document, \<open>querySelector\<close> gives \<open>null\<close> and the call throws.\<close>

definition addPage :: "session \<Rightarrow> error + session" where
  "addPage s = (case pages s of [] \<Rightarrow> Inl TypeError | template # _ \<Rightarrow> Inr (appendPage template s))"

section \<open>Layout metrics\<close>





section \<open>Pagination controller\<close>

text \<open>
  \<open>checkPageOverflow(editor)\<close> for the region of page \<open>i\<close>. The recursion follows the
  overflow from page to page and can go on for ever, so it is bounded by fuel: \<open>None\<close>
  means the call did not return within it. The code assigns the string returned by
  \<open>extractOverflowContent\<close> to \<open>innerHTML\<close>; here the nodes moved are installed. For
  blocks the two agree, the string being the serialisation of those nodes; the string of
  a text node is its text unescaped, and what the parser makes of that is not modelled.
\<close>

fun checkPageOverflow :: "nat \<Rightarrow> layout \<Rightarrow> nat \<Rightarrow> session \<Rightarrow> session option" where
  "checkPageOverflow 0 lay i s = None"
| "checkPageOverflow (Suc fuel) lay i s =
     (if length (pages s) \<le> i then Some s
      else case editor (pages s ! i) of
        None \<Rightarrow> Some s
      | Some nodes \<Rightarrow>
          if scrollHeight lay nodes = 0 \<and> trim (innerText lay nodes) \<noteq> []
          then Some (setTimeoutCheck 100 i (clearTimeout (typingTimer s) s))
          else if num_gt (Num (of_int (scrollHeight lay nodes))) (num_add (pageHeight s) (Num 5))
          then
            (let currentIndex = i;
                 split = extractOverflowContent (brHeight lay) nodes (pageHeight s);
                 overflowContent = snd split;
                 s1 = setEditor i (fst split) s
             in if trim (overflowMarkup overflowContent) \<noteq> []
                then
                  (if currentIndex = length (pages s) - 1
                   then
                     (let s2 = appendPage (hd (pages s1)) s1;
                          lastChild = length (pages s2) - 1
                      in case editor (pages s2 ! lastChild) of
                           None \<Rightarrow> Some (updateUI s2)
                         | Some _ \<Rightarrow>
                             map_option updateUI
                               (checkPageOverflow fuel lay lastChild
                                  (setEditor lastChild overflowContent s2)))
                   else
                     (case editor (pages s1 ! (currentIndex + 1)) of
                        Some nextNodes \<Rightarrow>
                          map_option updateUI
                            (checkPageOverflow fuel lay (currentIndex + 1)
                               (setEditor (currentIndex + 1) (overflowContent @ nextNodes) s1))
                      | None \<Rightarrow>
                          (let s2 = appendPage (hd (pages s1)) s1;
                               lastChild = length (pages s2) - 1
                           in case editor (pages s2 ! lastChild) of
                                None \<Rightarrow> Some (updateUI s2)
                              | Some _ \<Rightarrow>
                                  map_option updateUI
                                    (checkPageOverflow fuel lay lastChild
                                       (setEditor lastChild overflowContent s2)))))
                else Some (updateUI s1))
          else Some (updateUI s))"

text \<open>
  \<open>checkAllPagesForOverflow\<close>: the regions found when the call starts are checked in
  document order.
\<close>

fun checkEach :: "nat \<Rightarrow> layout \<Rightarrow> nat list \<Rightarrow> session \<Rightarrow> session option" where
  "checkEach fuel lay [] s = Some s"
| "checkEach fuel lay (i # rest) s =
     (case checkPageOverflow fuel lay i s of
        None \<Rightarrow> None
      | Some s1 \<Rightarrow> checkEach fuel lay rest s1)"

definition checkAllPagesForOverflow :: "nat \<Rightarrow> layout \<Rightarrow> session \<Rightarrow> session option" where
  "checkAllPagesForOverflow fuel lay s =
     checkEach fuel lay (filter (\<lambda>i. editor (pages s ! i) \<noteq> None) [0..<length (pages s)]) s"

section \<open>Removing an empty page with Backspace\<close>

definition toLower :: "char \<Rightarrow> char" where
  "toLower c =
     (if 65 \<le> (of_char c :: nat) \<and> (of_char c :: nat) \<le> 90
      then char_of ((of_char c :: nat) + 32) else c)"

text \<open>A literal matched at the head of the string without regard to case; the rest is returned.\<close>

fun matchPrefixCI :: "string \<Rightarrow> string \<Rightarrow> string option" where
  "matchPrefixCI [] s = Some s"
| "matchPrefixCI (p # ps) [] = None"
| "matchPrefixCI (p # ps) (c # cs) = (if toLower c = p then matchPrefixCI ps cs else None)"

text \<open>The pattern \<^verbatim>\<open><br\s*\/?>\<close> with flag \<open>i\<close>, matched at the head of the string.\<close>

definition matchBr :: "string \<Rightarrow> string option" where
  "matchBr s =
     (case matchPrefixCI ''<br'' s of
        None \<Rightarrow> None
      | Some r \<Rightarrow>
          (let r1 = dropWhile isWhiteSpace r;
               r2 = (case r1 of [] \<Rightarrow> r1 | c # cs \<Rightarrow> if c = CHR ''/'' then cs else r1)
           in case r2 of [] \<Rightarrow> None | c # cs \<Rightarrow> if c = CHR ''>'' then Some cs else None))"

definition matchNbsp :: "string \<Rightarrow> string option" where
  "matchNbsp s = matchPrefixCI ''&nbsp;'' s"

text \<open>
  \<open>replace(pattern, '')\<close> with flag \<open>g\<close>: matches are removed from left to right;
  \<open>skip\<close> counts the characters of the current match still to be dropped.
\<close>

fun removeMatches :: "(string \<Rightarrow> string option) \<Rightarrow> nat \<Rightarrow> string \<Rightarrow> string" where
  "removeMatches m skip [] = []"
| "removeMatches m (Suc skip) (c # cs) = removeMatches m skip cs"
| "removeMatches m 0 (c # cs) =
     (case m (c # cs) of
        Some rest \<Rightarrow> removeMatches m (length cs - length rest) cs
      | None \<Rightarrow> c # removeMatches m 0 cs)"

definition htmlContent :: "node list \<Rightarrow> string" where
  "htmlContent nodes =
     trim (removeMatches matchNbsp 0 (removeMatches matchBr 0 (trim (innerHTML nodes))))"

definition removePage :: "nat \<Rightarrow> page list \<Rightarrow> page list" where
  "removePage i ps = take i ps @ drop (Suc i) ps"

text \<open>What a reference to a region denotes once page \<open>i\<close> has been removed.\<close>

fun afterRemoval :: "nat \<Rightarrow> editor_ref \<Rightarrow> editor_ref" where
  "afterRemoval i (PageEditor j) =
     (if j < i then PageEditor j else if j = i then DetachedEditor else PageEditor (j - 1))"
| "afterRemoval i DetachedEditor = DetachedEditor"

definition caretAfterRemoval :: "nat \<Rightarrow> (nat \<times> nat) option \<Rightarrow> (nat \<times> nat) option" where
  "caretAfterRemoval i c =
     (case c of
        None \<Rightarrow> None
      | Some (j, offset) \<Rightarrow>
          if j < i then Some (j, offset) else if j = i then None else Some (j - 1, offset))"

text \<open>
  The \<open>keydown\<close> listener for the key Backspace. \<open>activeElement\<close> is the page position of
  the focused region, \<open>None\<close> when the focused element is not a region. Pending checks
  name their region by page position and are left as they are.
\<close>

definition keydownBackspace :: "session \<Rightarrow> session" where
  "keydownBackspace s =
     (case activeElement s of
        None \<Rightarrow> s
      | Some currentIndex \<Rightarrow>
          if length (pages s) \<le> currentIndex then s
          else case editor (pages s ! currentIndex) of
            None \<Rightarrow> s
          | Some nodes \<Rightarrow>
              if htmlContent nodes = [] \<and> currentIndex > 0
              then
                (let s1 = s\<lparr>pages := removePage currentIndex (pages s),
                             activeElement := None,
                             selectedEditor := map_option (afterRemoval currentIndex) (selectedEditor s),
                             caret := caretAfterRemoval currentIndex (caret s)\<rparr>;
                     s2 = (case editor (pages s ! (currentIndex - 1)) of
                             None \<Rightarrow> s1
                           | Some _ \<Rightarrow> (focusEditor (currentIndex - 1) s1)
                                         \<lparr>selectedEditor := Some (PageEditor (currentIndex - 1))\<rparr>);
                     s3 = updatePageNumbers s2;
                     s4 = s3\<lparr>totalPages := length (pages s3)\<rparr>
                 in s4\<lparr>currentPage := min (currentPage s4) (totalPages s4)\<rparr>)
              else s)"

section \<open>New document\<close>

fun afterReset :: "editor_ref \<Rightarrow> editor_ref" where
  "afterReset (PageEditor j) = (if j = 0 then PageEditor 0 else DetachedEditor)"
| "afterReset DetachedEditor = DetachedEditor"

text \<open>
  \<open>resetDocument\<close>: every page but the first is removed, the editable regions of the
  first are cleared, the fields are reset, the first region is focused, \<open>updateUI\<close>.
\<close>

definition resetDocument :: "session \<Rightarrow> session" where
  "resetDocument s =
     (case pages s of
        [] \<Rightarrow> s\<lparr>console := console s @ [''No page found to reset'']\<rparr>
      | firstPage # _ \<Rightarrow>
          (let s1 = s\<lparr>pages := [firstPage\<lparr>editor := map_option (\<lambda>_. []) (editor firstPage)\<rparr>],
                       activeElement := (if activeElement s = Some 0 then Some 0 else None),
                       selectedEditor := map_option afterReset (selectedEditor s),
                       caret := None\<rparr>;
               s2 = s1\<lparr>currentPage := 1, totalPages := 1,
                        currentFilePath := None, documentModified := False\<rparr>;
               s3 = (case editor firstPage of
                       None \<Rightarrow> s2
                     | Some _ \<Rightarrow> (focusEditor 0 s2)\<lparr>selectedEditor := Some (PageEditor 0)\<rparr>)
           in updateUI s3))"

section \<open>Events\<close>

text \<open>
  The events that schedule, cancel or run overflow checks: an \<open>input\<close> event on a region,
  a mutation record whose target is a region, a timer that comes due, and a direct
  re-check of all pages (after load, zoom or resize). A timer that is no longer pending
  runs nothing.
\<close>

datatype event = InputEvent nat | MutationRecord nat | TimerFires nat | RecheckAll

fun exec :: "nat \<Rightarrow> layout \<Rightarrow> event \<Rightarrow> session \<Rightarrow> session option" where
  "exec fuel lay (InputEvent i) s = Some (handleEditorInput i s)"
| "exec fuel lay (MutationRecord i) s = Some (observerCallback i s)"
| "exec fuel lay (TimerFires tid) s =
     (case find (\<lambda>task. fst task = tid) (pendingChecks s) of
        None \<Rightarrow> Some s
      | Some task \<Rightarrow>
          checkPageOverflow fuel lay (snd (snd task))
            (s\<lparr>pendingChecks := filter (\<lambda>task. fst task \<noteq> tid) (pendingChecks s)\<rparr>))"
| "exec fuel lay RecheckAll s = checkAllPagesForOverflow fuel lay s"

fun run :: "nat \<Rightarrow> layout \<Rightarrow> event list \<Rightarrow> session \<Rightarrow> session option" where
  "run fuel lay [] s = Some s"
| "run fuel lay (ev # evs) s =
     (case exec fuel lay ev s of
        None \<Rightarrow> None
      | Some s1 \<Rightarrow> run fuel lay evs s1)"

section \<open>Properties of interest, as predicates\<close>

text \<open>The checks that would still run, each the callback of the timer with that id.\<close>

definition latestOnly :: "session \<Rightarrow> bool" where
  "latestOnly s =
     (length (pendingChecks s) \<le> 1 \<and>
      list_all (\<lambda>task. typingTimer s = Some (fst task) \<and> Suc (fst task) = nextTimerId s)
        (pendingChecks s))"

text \<open>A region is stable when its content height is at most the capacity plus the buffer of 5.\<close>

definition stable :: "layout \<Rightarrow> session \<Rightarrow> node list \<Rightarrow> bool" where
  "stable lay s nodes =
     num_le (Num (of_int (scrollHeight lay nodes))) (num_add (pageHeight s) (Num 5))"

text \<open>The content regions in page order, and the nodes of the document in that order.\<close>

definition regions :: "session \<Rightarrow> node list option list" where
  "regions s = map editor (pages s)"

definition nodesOf :: "node list option \<Rightarrow> node list" where
  "nodesOf region = (case region of None \<Rightarrow> [] | Some nodes \<Rightarrow> nodes)"







text \<open>A region is blank when its markup is empty up to white space.\<close>

definition blank :: "node list \<Rightarrow> bool" where
  "blank nodes = (trim (innerHTML nodes) = [])"

definition notBlank :: "node list option \<Rightarrow> bool" where
  "notBlank region = (case region of None \<Rightarrow> True | Some nodes \<Rightarrow> \<not> blank nodes)"

definition noBlankRegion :: "session \<Rightarrow> bool" where
  "noBlankRegion s = list_all notBlank (regions s)"

text \<open>The current page number lies within the pages of the document.\<close>

definition currentPageInRange :: "session \<Rightarrow> bool" where
  "currentPageInRange s = (1 \<le> currentPage s \<and> currentPage s \<le> length (pages s))"

text \<open>Every label that exists shows the position of its page.\<close>

definition numbered :: "page list \<Rightarrow> bool" where
  "numbered ps =
     list_all (\<lambda>i. pageNumber (ps ! i) = None \<or> pageNumber (ps ! i) = Some (i + 1))
       [0..<length ps]"

text \<open>
  The states handed to the recursive call of \<open>checkPageOverflow\<close>: the overflow installed
  in the region of a page appended by \<open>addPage\<close>, and the overflow put in front of the
  content of the next page's region.
\<close>

definition installedOnNewPage :: "nat \<Rightarrow> node list \<Rightarrow> node list \<Rightarrow> session \<Rightarrow> session" where
  "installedOnNewPage i kept overflow s =
     setEditor (length (pages s)) overflow
       (appendPage (hd (pages (setEditor i kept s))) (setEditor i kept s))"

definition prependedToNext ::
  "nat \<Rightarrow> node list \<Rightarrow> node list \<Rightarrow> node list \<Rightarrow> session \<Rightarrow> session" where
  "prependedToNext i kept overflow next s =
     setEditor (i + 1) (overflow @ next) (setEditor i kept s)"


definition unmodified :: "bool \<Rightarrow> session \<Rightarrow> bool" where
  "unmodified b s = (documentModified s = b)"

text \<open>The caret stands after the last node of region \<open>i\<close>.\<close>

definition caretAtEnd :: "nat \<Rightarrow> session \<Rightarrow> bool" where
  "caretAtEnd i s =
     (case editor (pages s ! i) of
        None \<Rightarrow> False
      | Some nodes \<Rightarrow> caret s = Some (i, length nodes))"

section \<open>A sample document\<close>

text \<open>
  Concrete inputs for the worked instances below: paragraphs of a given height, a layout
  whose \<open>scrollHeight\<close> is the sum of the block heights and whose usable page height is
  1000, the same layout before anything is rendered (all heights zero, page styled 50
  high), and a session with the given region contents, one per page.
\<close>

definition para :: "int \<Rightarrow> string \<Rightarrow> node" where
  "para h t = Element h (''<p>'' @ t @ ''</p>'')"

definition demoLayout :: layout where
  "demoLayout =
     \<lparr>scrollHeight = totalHeight, innerText = overflowMarkup, brHeight = 20,
      stylePageHeight = Num 1120, stylePagePaddingTop = Num 20, stylePagePaddingBottom = Num 20,
      styleEditorPaddingTop = Num 10, styleEditorPaddingBottom = Num 10,
      styleEditorMarginTop = Num 0, styleEditorMarginBottom = Num 0,
      headerOffsetHeight = Some 30, footerOffsetHeight = Some 30,
      fsub = (\<lambda>a b. a - b)\<rparr>"

definition unrenderedLayout :: layout where
  "unrenderedLayout = demoLayout\<lparr>scrollHeight := (\<lambda>nodes. 0), stylePageHeight := Num 50\<rparr>"



definition demoPage :: "node list \<Rightarrow> page" where
  "demoPage nodes = \<lparr>pageNumber = Some 1, editor = Some nodes, wired = True\<rparr>"

definition demoSession :: "node list list \<Rightarrow> session" where
  "demoSession contents =
     \<lparr>documentModified = False, currentFilePath = None, currentPage = 1,
      totalPages = length contents, selectedEditor = None, typingTimer = None,
      pageHeight = Num 1000, pages = map demoPage contents, activeElement = None,
      pendingChecks = [], nextTimerId = 1, console = [],
      caret = None, caretOnFocus = (\<lambda>nodes. 0)\<rparr>"

section \<open>Splitter: auxiliary facts\<close>

lemma trim_empty_iff: "trim s = [] \<longleftrightarrow> (\<forall>c \<in> set s. isWhiteSpace c)"
proof -
  have "trim s = [] \<longleftrightarrow> dropWhile isWhiteSpace (rev (dropWhile isWhiteSpace s)) = []"
    by (simp add: trim_def)
  also have "\<dots> \<longleftrightarrow> (\<forall>c \<in> set (dropWhile isWhiteSpace s). isWhiteSpace c)"
    by simp
  also have "\<dots> \<longleftrightarrow> (\<forall>c \<in> set s. isWhiteSpace c)"
  proof
    assume a: "\<forall>c \<in> set (dropWhile isWhiteSpace s). isWhiteSpace c"
    have "dropWhile isWhiteSpace s = []"
    proof (rule ccontr)
      assume "dropWhile isWhiteSpace s \<noteq> []"
      then have "\<not> isWhiteSpace (hd (dropWhile isWhiteSpace s))"
        by (rule hd_dropWhile)
      moreover have "hd (dropWhile isWhiteSpace s) \<in> set (dropWhile isWhiteSpace s)"
        using \<open>dropWhile isWhiteSpace s \<noteq> []\<close> by simp
      ultimately show False using a by blast
    qed
    then show "\<forall>c \<in> set s. isWhiteSpace c"
      by simp
  next
    assume "\<forall>c \<in> set s. isWhiteSpace c"
    then show "\<forall>c \<in> set (dropWhile isWhiteSpace s). isWhiteSpace c"
      using set_dropWhileD by fastforce
  qed
  finally show ?thesis .
qed

lemma lt_not_space: "\<not> isWhiteSpace CHR ''<''"
  by (simp add: isWhiteSpace_def)

lemma block_markup_not_blank:
  assumes "is_block n"
  shows "trim (innerHTML (n # ns)) \<noteq> []"
proof -
  from assms obtain h m where n: "n = Element h m" "m \<noteq> []" "hd m = CHR ''<''"
    by (cases n) (auto split: list.splits)
  then have "CHR ''<'' \<in> set (innerHTML (n # ns))"
    by (cases m) (auto simp: innerHTML_def)
  then show ?thesis
    using lt_not_space by (auto simp: trim_empty_iff)
qed

lemma findSplit_range:
  "findSplit ns i c m = Some k \<Longrightarrow> i \<le> k \<and> k < i + length ns"
  by (induction ns arbitrary: i c) (auto split: if_splits, fastforce+)

lemma splitIndex_range: "splitIndex ns m = Some k \<Longrightarrow> k < length ns"
  using findSplit_range [of ns 0 "Num 0" m k] by (simp add: splitIndex_def)

lemma totalHeight_Cons: "totalHeight (n # ns) = blockHeight n + totalHeight ns"
  by (simp add: totalHeight_def)

lemma findSplit_blocks_None:
  "list_all is_block ns \<Longrightarrow> findSplit ns i (Num c) (Num cap) = None \<Longrightarrow> j < length ns \<Longrightarrow>
     c + of_int (totalHeight (take (Suc j) ns)) \<le> cap"
proof (induction ns arbitrary: i c j)
  case Nil
  then show ?case by simp
next
  case (Cons n ns)
  then obtain h m where n: "n = Element h m" by (cases n) auto
  from Cons.prems n have le: "c + of_int h \<le> cap"
    and rec: "findSplit ns (Suc i) (Num (c + of_int h)) (Num cap) = None"
    by (auto split: if_splits)
  show ?case
  proof (cases j)
    case 0
    with le n show ?thesis by (simp add: totalHeight_def)
  next
    case (Suc j')
    with Cons.prems have "j' < length ns" by simp
    from Cons.IH [OF _ rec this] Cons.prems(1)
    have "c + of_int h + of_int (totalHeight (take (Suc j') ns)) \<le> cap" by simp
    with Suc n show ?thesis by (simp add: totalHeight_Cons add.assoc)
  qed
qed

lemma findSplit_blocks_Some:
  "list_all is_block ns \<Longrightarrow> findSplit ns i (Num c) (Num cap) = Some k \<Longrightarrow>
     c + of_int (totalHeight (take (Suc (k - i)) ns)) > cap \<and>
     (\<forall>j < k - i. c + of_int (totalHeight (take (Suc j) ns)) \<le> cap)"
proof (induction ns arbitrary: i c)
  case Nil
  then show ?case by simp
next
  case (Cons n ns)
  then obtain h m where n: "n = Element h m" by (cases n) auto
  show ?case
  proof (cases "c + of_int h > cap")
    case True
    with Cons.prems n have "k = i" by simp
    with True n show ?thesis by (simp add: totalHeight_def)
  next
    case False
    with Cons.prems n have rec: "findSplit ns (Suc i) (Num (c + of_int h)) (Num cap) = Some k"
      by simp
    from findSplit_range [OF rec] have ki: "Suc i \<le> k" by simp
    then have kk: "k - i = Suc (k - Suc i)" by simp
    from Cons.IH [OF _ rec] Cons.prems(1)
    have ih: "c + of_int h + of_int (totalHeight (take (Suc (k - Suc i)) ns)) > cap"
      "\<forall>j < k - Suc i. c + of_int h + of_int (totalHeight (take (Suc j) ns)) \<le> cap"
      by simp_all
    have a: "c + of_int (totalHeight (take (Suc (k - i)) (n # ns))) > cap"
      using ih(1) n kk by (simp add: totalHeight_Cons add.assoc)
    have b: "c + of_int (totalHeight (take (Suc j) (n # ns))) \<le> cap" if "j < k - i" for j
    proof (cases j)
      case 0
      with False n show ?thesis by (simp add: totalHeight_def)
    next
      case (Suc j')
      with that kk have "j' < k - Suc i" by simp
      with ih(2) have "c + of_int h + of_int (totalHeight (take (Suc j') ns)) \<le> cap" by blast
      with Suc n show ?thesis by (simp add: totalHeight_Cons add.assoc)
    qed
    from a b show ?thesis by blast
  qed
qed

lemma blocks_take_not_blank:
  "list_all is_block ns \<Longrightarrow> 0 < k \<Longrightarrow> ns \<noteq> [] \<Longrightarrow> trim (innerHTML (take k ns)) \<noteq> []"
  by (cases ns; cases k) (auto simp: block_markup_not_blank)

lemma overflowMarkup_blocks:
  "list_all is_block ns \<Longrightarrow> overflowMarkup ns = innerHTML ns"
proof (induction ns)
  case Nil
  then show ?case by (simp add: overflowMarkup_def innerHTML_def)
next
  case (Cons n ns)
  then show ?case by (cases n) (auto simp: overflowMarkup_def innerHTML_def)
qed

text \<open>
  Claim C1. For a sequence of blocks (elements, each with its height), the split index is
  the first position at which the running total of the heights exceeds the capacity: the
  total up to and including \<open>k\<close> exceeds it and no shorter prefix does. The blocks from
  \<open>k\<close> on are the overflow, in their order and with their own markup; the blocks before
  \<open>k\<close> stay (for \<open>k = 0\<close> the region is left with the placeholder). Without such a
  position nothing moves. Heights 300, 400, 500 with capacity 1000 keep the first two
  blocks and move the third.
\<close>

theorem splitter_first_exceeding:
  assumes "list_all is_block nodes"
  shows "case splitIndex nodes (Num capacity) of
           None \<Rightarrow>
             (\<forall>j < length nodes. of_int (totalHeight (take (Suc j) nodes)) \<le> capacity) \<and>
             extractOverflowContent br nodes (Num capacity) = (nodes, [])
         | Some k \<Rightarrow>
             k < length nodes \<and>
             of_int (totalHeight (take (Suc k) nodes)) > capacity \<and>
             (\<forall>j < k. of_int (totalHeight (take (Suc j) nodes)) \<le> capacity) \<and>
             extractOverflowContent br nodes (Num capacity) =
               (if k = 0 then [placeholder br] else take k nodes, drop k nodes) \<and>
             overflowMarkup (drop k nodes) = concat (map serializeNode (drop k nodes))"
proof (cases "splitIndex nodes (Num capacity)")
  case None
  then have "findSplit nodes 0 (Num 0) (Num capacity) = None" by (simp add: splitIndex_def)
  from findSplit_blocks_None [OF assms this]
  have "\<forall>j < length nodes. of_int (totalHeight (take (Suc j) nodes)) \<le> capacity" by simp
  with None show ?thesis by (simp add: extractOverflowContent_def)
next
  case (Some k)
  then have fs: "findSplit nodes 0 (Num 0) (Num capacity) = Some k" by (simp add: splitIndex_def)
  from splitIndex_range [OF Some] have k: "k < length nodes" .
  from findSplit_blocks_Some [OF assms fs]
  have hs: "of_int (totalHeight (take (Suc k) nodes)) > capacity"
    "\<forall>j < k. of_int (totalHeight (take (Suc j) nodes)) \<le> capacity" by simp_all
  have kept: "(if trim (innerHTML (take k nodes)) = [] then [placeholder br] else take k nodes) =
      (if k = 0 then [placeholder br] else take k nodes)"
  proof (cases "k = 0")
    case True
    then show ?thesis by (simp add: innerHTML_def trim_def)
  next
    case False
    with k assms have "trim (innerHTML (take k nodes)) \<noteq> []"
      by (intro blocks_take_not_blank) auto
    with False show ?thesis by simp
  qed
  have "list_all is_block (drop k nodes)"
    using assms by (auto simp: list_all_iff dest: in_set_dropD)
  then have "overflowMarkup (drop k nodes) = concat (map serializeNode (drop k nodes))"
    using overflowMarkup_blocks by (simp add: innerHTML_def)
  with Some k hs kept show ?thesis
    by (simp add: extractOverflowContent_def Let_def)
qed

theorem splitter_first_exceeding_witness:
  "list_all is_block [Element 300 ''<p>a</p>'', Element 400 ''<p>b</p>'', Element 500 ''<p>c</p>''] \<and>
   splitIndex [Element 300 ''<p>a</p>'', Element 400 ''<p>b</p>'', Element 500 ''<p>c</p>''] (Num 1000) = Some 2 \<and>
   extractOverflowContent 20 [Element 300 ''<p>a</p>'', Element 400 ''<p>b</p>'', Element 500 ''<p>c</p>'']
      (Num 1000) =
     ([Element 300 ''<p>a</p>'', Element 400 ''<p>b</p>''], [Element 500 ''<p>c</p>'']) \<and>
   overflowMarkup [Element 500 ''<p>c</p>''] = ''<p>c</p>''"
proof -
  have b: "list_all is_block [Element 300 ''<p>a</p>'', Element 400 ''<p>b</p>'', Element 500 ''<p>c</p>'']"
    by simp
  have k: "splitIndex [Element 300 ''<p>a</p>'', Element 400 ''<p>b</p>'', Element 500 ''<p>c</p>''] (Num 1000) = Some 2"
    by (simp add: splitIndex_def)
  from splitter_first_exceeding [OF b, of 1000 20] k b show ?thesis
    by (simp add: overflowMarkup_def)
qed

text \<open>
  Claim C3. When the first block alone exceeds the capacity the split index is 0: the
  whole sequence, first block included and with its markup unbroken, becomes the overflow,
  and the region is left with the placeholder break only.
\<close>

theorem oversized_first_block_moves_whole:
  assumes "of_int h > capacity"
  shows "splitIndex (Element h m # rest) (Num capacity) = Some 0 \<and>
         extractOverflowContent br (Element h m # rest) (Num capacity) =
           ([placeholder br], Element h m # rest) \<and>
         overflowMarkup (Element h m # rest) = m @ overflowMarkup rest"
  using assms
  by (simp add: splitIndex_def extractOverflowContent_def innerHTML_def trim_def overflowMarkup_def)

theorem oversized_first_block_moves_whole_witness:
  "(of_int 1500 :: rat) > 1000 \<and>
   extractOverflowContent 20 [Element 1500 ''<table></table>'', Element 30 ''<p>x</p>''] (Num 1000) =
     ([Element 20 ''<br>''], [Element 1500 ''<table></table>'', Element 30 ''<p>x</p>'']) \<and>
   overflowMarkup [Element 1500 ''<table></table>'', Element 30 ''<p>x</p>''] = ''<table></table><p>x</p>''"
  using oversized_first_block_moves_whole [of 1000 1500 "''<table></table>''" "[Element 30 ''<p>x</p>'']" 20]
  by (simp add: placeholder_def overflowMarkup_def)

section \<open>Controller: auxiliary facts\<close>

lemma num_le_not_gt: "num_le a b \<Longrightarrow> \<not> num_gt a b"
  by (cases a; cases b) auto

lemma length_renumber [simp]: "length (renumber k ps) = length ps"
  by (induction ps arbitrary: k) (auto split: option.splits)

lemma map_editor_renumber [simp]: "map editor (renumber k ps) = map editor ps"
  by (induction ps arbitrary: k) (auto split: option.splits)

lemma map_wired_renumber [simp]: "map wired (renumber k ps) = map wired ps"
  by (induction ps arbitrary: k) (auto split: option.splits)

lemma editor_renumber_nth [simp]: "i < length ps \<Longrightarrow> editor (renumber k ps ! i) = editor (ps ! i)"
  using map_editor_renumber [of k ps] by (metis length_renumber nth_map)

lemma wired_renumber_nth [simp]: "i < length ps \<Longrightarrow> wired (renumber k ps ! i) = wired (ps ! i)"
  using map_wired_renumber [of k ps] by (metis length_renumber nth_map)

lemma pageNumber_renumber_nth:
  "i < length ps \<Longrightarrow>
     pageNumber (renumber k ps ! i) = (case pageNumber (ps ! i) of None \<Rightarrow> None | Some _ \<Rightarrow> Some (k + i + 1))"
proof (induction ps arbitrary: k i)
  case Nil
  then show ?case by simp
next
  case (Cons p ps)
  then show ?case by (cases i) (auto split: option.splits)
qed

lemma numbered_renumber: "numbered (renumber 0 ps)"
  by (auto simp: numbered_def list_all_iff pageNumber_renumber_nth split: option.splits)

lemma regions_updateUI [simp]: "regions (updateUI s) = regions s"
  by (simp add: regions_def updateUI_def updatePageNumbers_def)

lemma length_pages_updateUI [simp]: "length (pages (updateUI s)) = length (pages s)"
  by (simp add: updateUI_def updatePageNumbers_def)

lemma updateUI_fields [simp]:
  "documentModified (updateUI s) = documentModified s"
  "pendingChecks (updateUI s) = pendingChecks s"
  "typingTimer (updateUI s) = typingTimer s"
  "nextTimerId (updateUI s) = nextTimerId s"
  "pageHeight (updateUI s) = pageHeight s"
  "currentPage (updateUI s) = currentPage s"
  "totalPages (updateUI s) = length (pages s)"
  "activeElement (updateUI s) = activeElement s"
  "selectedEditor (updateUI s) = selectedEditor s"
  "console (updateUI s) = console s"
  by (simp_all add: updateUI_def updatePageNumbers_def)

lemma numbered_updateUI [simp]: "numbered (pages (updateUI s))"
  by (simp add: updateUI_def updatePageNumbers_def numbered_renumber)

lemma timer_ops_pages [simp]:
  "pages (clearTimeout t s) = pages s"
  "pages (setTimeoutCheck d i s) = pages s"
  by (simp_all add: clearTimeout_def setTimeoutCheck_def split: option.splits)

lemma regions_timer_ops [simp]:
  "regions (clearTimeout t s) = regions s"
  "regions (setTimeoutCheck d i s) = regions s"
  by (simp_all add: regions_def)

text \<open>
  Claim C5. A check on a region whose content height is at most the capacity plus the
  buffer returns and leaves every region of the document as it was, whatever the region
  holds: nothing is split, no page is added, no content moves.
\<close>

theorem stable_region_unchanged:
  assumes "i < length (pages s)" and "editor (pages s ! i) = Some nodes" and "stable lay s nodes"
  shows "map_option regions (checkPageOverflow (Suc fuel) lay i s) = Some (regions s)"
proof -
  from assms(3) have "\<not> num_gt (Num (of_int (scrollHeight lay nodes))) (num_add (pageHeight s) (Num 5))"
    by (simp add: stable_def num_le_not_gt)
  with assms(1,2) show ?thesis by simp
qed

lemma regions_setEditor:
  "i < length (pages s) \<Longrightarrow> regions (setEditor i nodes s) = (regions s)[i := Some nodes]"
  by (simp add: regions_def setEditor_def map_update)

lemma length_pages_setEditor [simp]: "length (pages (setEditor i nodes s)) = length (pages s)"
  by (simp add: setEditor_def)

lemma editor_setEditor_same [simp]:
  "i < length (pages s) \<Longrightarrow> editor (pages (setEditor i nodes s) ! i) = Some nodes"
  by (simp add: setEditor_def)

lemma editor_setEditor_other [simp]:
  "j \<noteq> i \<Longrightarrow> editor (pages (setEditor i nodes s) ! j) = editor (pages s ! j)"
  by (simp add: setEditor_def)

lemma wired_setEditor [simp]:
  "j < length (pages s) \<Longrightarrow> wired (pages (setEditor i nodes s) ! j) = wired (pages s ! j)"
  by (cases "j = i") (simp_all add: setEditor_def)

lemma pages_focusEditor [simp]: "pages (focusEditor i s) = pages s"
  by (simp add: focusEditor_def Let_def)

lemma length_pages_appendPage [simp]: "length (pages (appendPage t s)) = Suc (length (pages s))"
  by (simp add: appendPage_def Let_def split: option.splits)

lemma regions_appendPage:
  "regions (appendPage t s) = regions s @ [map_option (\<lambda>_. []) (editor t)]"
  by (simp add: appendPage_def Let_def regions_def updateUI_def updatePageNumbers_def
      split: option.splits)

lemma editor_nth_regions: "i < length (pages s) \<Longrightarrow> editor (pages s ! i) = regions s ! i"
  by (simp add: regions_def)


lemma hd_pages_setEditor:
  "pages s \<noteq> [] \<Longrightarrow> editor (hd (pages s)) \<noteq> None \<Longrightarrow> editor (hd (pages (setEditor i nodes s))) \<noteq> None"
  by (cases "pages s"; cases i) (auto simp: setEditor_def)

lemma regions_removePage: "map editor (removePage i ps) = take i (map editor ps) @ drop (Suc i) (map editor ps)"
  by (simp add: removePage_def take_map drop_map)

lemma length_removePage: "i < length ps \<Longrightarrow> length (removePage i ps) = length ps - 1"
  by (auto simp: removePage_def)

text \<open>
  Claim C6, amended. Backspace in a focused region whose markup is empty up to breaks and
  no-break spaces: on a page other than the first the page is removed, the labels are
  renumbered, the page count is refreshed and focus goes to the region of the previous
  page, with the caret where \<open>focus()\<close> puts it in that region (the handler sets no
  selection); on the first page nothing changes, and the first region always stays first.
\<close>
theorem backspace_removes_empty_page:
  assumes "activeElement s = Some i" and "i < length (pages s)"
    and "editor (pages s ! i) = Some nodes" and "htmlContent nodes = []"
  shows "(0 < i \<longrightarrow>
            regions (keydownBackspace s) = take i (regions s) @ drop (Suc i) (regions s) \<and>
            length (pages (keydownBackspace s)) = length (pages s) - 1 \<and>
            take 1 (regions (keydownBackspace s)) = take 1 (regions s) \<and>
            numbered (pages (keydownBackspace s)) \<and>
            totalPages (keydownBackspace s) = length (pages (keydownBackspace s)) \<and>
            currentPage (keydownBackspace s) \<le> totalPages (keydownBackspace s) \<and>
            (editor (pages s ! (i - 1)) \<noteq> None \<longrightarrow>
               activeElement (keydownBackspace s) = Some (i - 1) \<and>
               selectedEditor (keydownBackspace s) = Some (PageEditor (i - 1))) \<and>
            (editor (pages s ! (i - 1)) = Some previous \<longrightarrow>
               caret (keydownBackspace s) = Some (i - 1, caretOnFocus s previous))) \<and>
         (i = 0 \<longrightarrow> keydownBackspace s = s)"
proof (cases "0 < i")
  case False
  with assms show ?thesis by (simp add: keydownBackspace_def)
next
  case True
  define s1 where "s1 = s\<lparr>pages := removePage i (pages s), activeElement := None,
      selectedEditor := map_option (afterRemoval i) (selectedEditor s),
      caret := caretAfterRemoval i (caret s)\<rparr>"
  define s2 where "s2 = (case editor (pages s ! (i - 1)) of None \<Rightarrow> s1
      | Some _ \<Rightarrow> (focusEditor (i - 1) s1)\<lparr>selectedEditor := Some (PageEditor (i - 1))\<rparr>)"
  define s3 where "s3 = updatePageNumbers s2"
  have k: "keydownBackspace s =
      s3\<lparr>totalPages := length (pages s3),
         currentPage := min (currentPage s3) (length (pages s3))\<rparr>"
    unfolding s3_def s2_def s1_def using assms True by (simp add: keydownBackspace_def Let_def)
  have p2: "pages s2 = removePage i (pages s)"
    by (simp add: s2_def s1_def split: option.splits)
  have p3: "pages s3 = renumber 0 (removePage i (pages s))"
    by (simp add: s3_def updatePageNumbers_def p2)
  have reg: "regions (keydownBackspace s) = take i (regions s) @ drop (Suc i) (regions s)"
    by (simp add: k p3 regions_def regions_removePage)
  have len: "length (pages (keydownBackspace s)) = length (pages s) - 1"
    using assms(2) by (simp add: k p3 length_removePage)
  have first: "take 1 (regions (keydownBackspace s)) = take 1 (regions s)"
    unfolding reg using True assms(2) by (cases "regions s") (auto simp: regions_def)
  have num: "numbered (pages (keydownBackspace s))"
    by (simp add: k p3 numbered_renumber)
  have tot: "totalPages (keydownBackspace s) = length (pages (keydownBackspace s))"
    by (simp add: k)
  have cur: "currentPage (keydownBackspace s) \<le> totalPages (keydownBackspace s)"
    by (simp add: k)
  have foc: "activeElement (keydownBackspace s) = Some (i - 1) \<and>
      selectedEditor (keydownBackspace s) = Some (PageEditor (i - 1))"
    if "editor (pages s ! (i - 1)) \<noteq> None"
    using that
    by (auto simp: k s3_def updatePageNumbers_def s2_def focusEditor_def Let_def s1_def)
  have same: "removePage i (pages s) ! (i - 1) = pages s ! (i - 1)"
    using True assms(2) by (simp add: removePage_def nth_append)
  have car: "caret (keydownBackspace s) = Some (i - 1, caretOnFocus s previous)"
    if "editor (pages s ! (i - 1)) = Some previous"
    using that same
    by (simp add: k s3_def updatePageNumbers_def s2_def focusEditor_def Let_def s1_def)
  from True reg len first num tot cur foc car show ?thesis by simp
qed


section \<open>Unfolding and invariants of the overflow check\<close>

lemma editor_appendPage_last:
  "editor (pages (appendPage t s) ! length (pages s)) = map_option (\<lambda>_. []) (editor t)"
  using regions_appendPage [of t s]
  by (metis editor_nth_regions length_map length_pages_appendPage lessI nth_append_length regions_def)

lemma checkPageOverflow_Suc:
  assumes "i < length (pages s)" and "editor (pages s ! i) = Some nodes"
    and "extractOverflowContent (brHeight lay) nodes (pageHeight s) = (kept, overflow)"
  shows "checkPageOverflow (Suc fuel) lay i s =
     (if scrollHeight lay nodes = 0 \<and> trim (innerText lay nodes) \<noteq> []
      then Some (setTimeoutCheck 100 i (clearTimeout (typingTimer s) s))
      else if \<not> num_gt (Num (of_int (scrollHeight lay nodes))) (num_add (pageHeight s) (Num 5))
      then Some (updateUI s)
      else if trim (overflowMarkup overflow) = []
      then Some (updateUI (setEditor i kept s))
      else if i = length (pages s) - 1 \<or> editor (pages s ! (i + 1)) = None
      then (if editor (hd (pages (setEditor i kept s))) = None
            then Some (updateUI (appendPage (hd (pages (setEditor i kept s))) (setEditor i kept s)))
            else map_option updateUI
                   (checkPageOverflow fuel lay (length (pages s))
                      (installedOnNewPage i kept overflow s)))
      else map_option updateUI
             (checkPageOverflow fuel lay (i + 1)
                (prependedToNext i kept overflow (the (editor (pages s ! (i + 1)))) s)))"
proof -
  let ?s1 = "setEditor i kept s"
  let ?s2 = "appendPage (hd (pages ?s1)) ?s1"
  have l: "(length (pages s) \<le> i) = False" using assms(1) by simp
  have len2: "length (pages ?s2) - 1 = length (pages s)" by simp
  have nx: "editor (pages ?s1 ! (i + 1)) = editor (pages s ! (i + 1))" by simp
  have e2: "editor (pages ?s2 ! length (pages s)) = map_option (\<lambda>_. []) (editor (hd (pages ?s1)))"
    using editor_appendPage_last [of "hd (pages ?s1)" ?s1] by simp
  have raw: "checkPageOverflow (Suc fuel) lay i s =
     (if scrollHeight lay nodes = 0 \<and> trim (innerText lay nodes) \<noteq> []
      then Some (setTimeoutCheck 100 i (clearTimeout (typingTimer s) s))
      else if num_gt (Num (of_int (scrollHeight lay nodes))) (num_add (pageHeight s) (Num 5))
      then (if trim (overflowMarkup overflow) \<noteq> []
            then (if i = length (pages s) - 1
                  then (case map_option (\<lambda>_. [] :: node list) (editor (hd (pages ?s1))) of
                          None \<Rightarrow> Some (updateUI ?s2)
                        | Some _ \<Rightarrow> map_option updateUI
                            (checkPageOverflow fuel lay (length (pages s))
                               (setEditor (length (pages s)) overflow ?s2)))
                  else (case editor (pages s ! (i + 1)) of
                          Some nextNodes \<Rightarrow> map_option updateUI
                            (checkPageOverflow fuel lay (i + 1)
                               (setEditor (i + 1) (overflow @ nextNodes) ?s1))
                        | None \<Rightarrow>
                           (case map_option (\<lambda>_. [] :: node list) (editor (hd (pages ?s1))) of
                              None \<Rightarrow> Some (updateUI ?s2)
                            | Some _ \<Rightarrow> map_option updateUI
                                (checkPageOverflow fuel lay (length (pages s))
                                   (setEditor (length (pages s)) overflow ?s2)))))
            else Some (updateUI ?s1))
      else Some (updateUI s))"
    apply (subst checkPageOverflow.simps(2))
    apply (simp only: l assms(2) assms(3) Let_def fst_conv snd_conv option.case if_False len2 e2 nx)
    done
  show ?thesis
    unfolding raw installedOnNewPage_def prependedToNext_def
    by (auto split: option.splits)
qed


lemma checkPageOverflow_out_of_range:
  "length (pages s) \<le> i \<or> editor (pages s ! i) = None \<Longrightarrow> checkPageOverflow (Suc fuel) lay i s = Some s"
  by auto


lemma checkPageOverflow_preserves:
  assumes ret: "checkPageOverflow fuel lay i s = Some s'"
    and init: "P s"
    and retry: "\<And>s i. P s \<Longrightarrow> P (setTimeoutCheck 100 i (clearTimeout (typingTimer s) s))"
    and refresh: "\<And>s. P s \<Longrightarrow> P (updateUI s)"
    and split_only: "\<And>s i nodes kept overflow.
        P s \<Longrightarrow> i < length (pages s) \<Longrightarrow> editor (pages s ! i) = Some nodes \<Longrightarrow>
        extractOverflowContent (brHeight lay) nodes (pageHeight s) = (kept, overflow) \<Longrightarrow>
        trim (overflowMarkup overflow) = [] \<Longrightarrow> P (setEditor i kept s)"
    and new_page: "\<And>s i nodes kept overflow.
        P s \<Longrightarrow> i < length (pages s) \<Longrightarrow> editor (pages s ! i) = Some nodes \<Longrightarrow>
        extractOverflowContent (brHeight lay) nodes (pageHeight s) = (kept, overflow) \<Longrightarrow>
        trim (overflowMarkup overflow) \<noteq> [] \<Longrightarrow>
        i = length (pages s) - 1 \<or> editor (pages s ! (i + 1)) = None \<Longrightarrow>
        editor (hd (pages (setEditor i kept s))) \<noteq> None \<Longrightarrow>
        P (installedOnNewPage i kept overflow s)"
    and lost: "\<And>s i nodes kept overflow.
        P s \<Longrightarrow> i < length (pages s) \<Longrightarrow> editor (pages s ! i) = Some nodes \<Longrightarrow>
        extractOverflowContent (brHeight lay) nodes (pageHeight s) = (kept, overflow) \<Longrightarrow>
        i = length (pages s) - 1 \<or> editor (pages s ! (i + 1)) = None \<Longrightarrow>
        editor (hd (pages (setEditor i kept s))) = None \<Longrightarrow>
        P (appendPage (hd (pages (setEditor i kept s))) (setEditor i kept s))"
    and next_page: "\<And>s i nodes kept overflow following.
        P s \<Longrightarrow> i < length (pages s) \<Longrightarrow> editor (pages s ! i) = Some nodes \<Longrightarrow>
        extractOverflowContent (brHeight lay) nodes (pageHeight s) = (kept, overflow) \<Longrightarrow>
        trim (overflowMarkup overflow) \<noteq> [] \<Longrightarrow>
        i \<noteq> length (pages s) - 1 \<Longrightarrow> editor (pages s ! (i + 1)) = Some following \<Longrightarrow>
        P (prependedToNext i kept overflow following s)"
  shows "P s'"
  using ret init
proof (induction fuel arbitrary: i s s')
  case 0
  then show ?case by simp
next
  case (Suc fuel)
  show ?case
  proof (cases "length (pages s) \<le> i \<or> editor (pages s ! i) = None")
    case True
    with Suc.prems checkPageOverflow_out_of_range [OF True] show ?thesis by simp
  next
    case False
    then obtain nodes where valid: "i < length (pages s)" "editor (pages s ! i) = Some nodes"
      by auto
    obtain kept overflow
      where split: "extractOverflowContent (brHeight lay) nodes (pageHeight s) = (kept, overflow)"
      by (cases "extractOverflowContent (brHeight lay) nodes (pageHeight s)") auto
    note eq = checkPageOverflow_Suc [OF valid split, of fuel]
    consider
      (a) "s' = setTimeoutCheck 100 i (clearTimeout (typingTimer s) s)"
    | (b) "s' = updateUI s"
    | (c) "trim (overflowMarkup overflow) = []" "s' = updateUI (setEditor i kept s)"
    | (d) "i = length (pages s) - 1 \<or> editor (pages s ! (i + 1)) = None"
          "editor (hd (pages (setEditor i kept s))) = None"
          "s' = updateUI (appendPage (hd (pages (setEditor i kept s))) (setEditor i kept s))"
    | (e) t where "trim (overflowMarkup overflow) \<noteq> []"
          "i = length (pages s) - 1 \<or> editor (pages s ! (i + 1)) = None"
          "editor (hd (pages (setEditor i kept s))) \<noteq> None"
          "checkPageOverflow fuel lay (length (pages s)) (installedOnNewPage i kept overflow s) = Some t"
          "s' = updateUI t"
    | (f) t following where "trim (overflowMarkup overflow) \<noteq> []"
          "i \<noteq> length (pages s) - 1" "editor (pages s ! (i + 1)) = Some following"
          "checkPageOverflow fuel lay (i + 1) (prependedToNext i kept overflow following s) = Some t"
          "s' = updateUI t"
      using Suc.prems(1) unfolding eq
      by (auto split: if_splits)
    then show ?thesis
    proof cases
      case a
      with Suc.prems(2) retry show ?thesis by simp
    next
      case b
      with Suc.prems(2) refresh show ?thesis by simp
    next
      case c
      with split_only [OF Suc.prems(2) valid split] refresh show ?thesis by simp
    next
      case d
      with lost [OF Suc.prems(2) valid split] refresh show ?thesis by simp
    next
      case e
      from new_page [OF Suc.prems(2) valid split e(1-3)]
      have "P (installedOnNewPage i kept overflow s)" .
      from Suc.IH [OF e(4) this] refresh e(5) show ?thesis by simp
    next
      case f
      from next_page [OF Suc.prems(2) valid split f(1-3)]
      have "P (prependedToNext i kept overflow following s)" .
      from Suc.IH [OF f(4) this] refresh f(5) show ?thesis by simp
    qed
  qed
qed

section \<open>Pending checks\<close>

lemma timers_setEditor [simp]:
  "pendingChecks (setEditor i nodes s) = pendingChecks s"
  "typingTimer (setEditor i nodes s) = typingTimer s"
  "nextTimerId (setEditor i nodes s) = nextTimerId s"
  by (simp_all add: setEditor_def)

lemma timers_appendPage [simp]:
  "pendingChecks (appendPage t s) = pendingChecks s"
  "typingTimer (appendPage t s) = typingTimer s"
  "nextTimerId (appendPage t s) = nextTimerId s"
  by (simp_all add: appendPage_def Let_def focusEditor_def split: option.splits)

lemma latestOnly_cong:
  "pendingChecks t = pendingChecks s \<Longrightarrow> typingTimer t = typingTimer s \<Longrightarrow>
     nextTimerId t = nextTimerId s \<Longrightarrow> latestOnly t = latestOnly s"
  by (simp add: latestOnly_def)

lemma latestOnly_cleared:
  assumes "latestOnly s"
  shows "pendingChecks (clearTimeout (typingTimer s) s) = []"
proof (cases "typingTimer s")
  case None
  with assms show ?thesis
    by (cases "pendingChecks s") (auto simp: latestOnly_def clearTimeout_def)
next
  case (Some tid)
  with assms have "\<forall>task \<in> set (pendingChecks s). fst task = tid"
    by (auto simp: latestOnly_def list_all_iff)
  with Some show ?thesis
    by (auto simp: clearTimeout_def filter_empty_conv)
qed

lemma clearTimeout_fields [simp]:
  "typingTimer (clearTimeout t s) = typingTimer s"
  "nextTimerId (clearTimeout t s) = nextTimerId s"
  "documentModified (clearTimeout t s) = documentModified s"
  by (simp_all add: clearTimeout_def split: option.splits)

lemma scheduled_after_clear:
  assumes "latestOnly s"
  shows "pendingChecks (setTimeoutCheck d i (clearTimeout (typingTimer s) s)) = [(nextTimerId s, d, i)]"
    and "typingTimer (setTimeoutCheck d i (clearTimeout (typingTimer s) s)) = Some (nextTimerId s)"
    and "nextTimerId (setTimeoutCheck d i (clearTimeout (typingTimer s) s)) = Suc (nextTimerId s)"
  using latestOnly_cleared [OF assms] by (simp_all add: setTimeoutCheck_def)

lemma latestOnly_rescheduled:
  "latestOnly s \<Longrightarrow> latestOnly (setTimeoutCheck d i (clearTimeout (typingTimer s) s))"
  using scheduled_after_clear [of s d i] by (simp add: latestOnly_def)

lemma latestOnly_checkPageOverflow:
  assumes "checkPageOverflow fuel lay i s = Some s'" and "latestOnly s"
  shows "latestOnly s'"
proof (rule checkPageOverflow_preserves [where P = latestOnly, OF assms])
  show "\<And>s i. latestOnly s \<Longrightarrow> latestOnly (setTimeoutCheck 100 i (clearTimeout (typingTimer s) s))"
    by (rule latestOnly_rescheduled)
qed (simp_all add: latestOnly_def installedOnNewPage_def prependedToNext_def)

lemma latestOnly_checkEach:
  "checkEach fuel lay is s = Some s' \<Longrightarrow> latestOnly s \<Longrightarrow> latestOnly s'"
proof (induction "is" arbitrary: s)
  case Nil
  then show ?case by simp
next
  case (Cons i rest)
  then show ?case
    by (auto split: option.splits dest: latestOnly_checkPageOverflow)
qed

lemma latestOnly_markModified:
  "latestOnly (markDocumentAsModified s) = latestOnly s"
  by (simp add: latestOnly_def markDocumentAsModified_def)

lemma latestOnly_exec:
  assumes "exec fuel lay ev s = Some s'" and "latestOnly s"
  shows "latestOnly s'"
proof (cases ev)
  case (InputEvent i)
  have "latestOnly (markDocumentAsModified s)"
    using assms(2) by (simp add: latestOnly_markModified)
  from latestOnly_rescheduled [OF this, of 500 i] assms(1) InputEvent show ?thesis
    by (auto simp: handleEditorInput_def Let_def)
next
  case (MutationRecord i)
  with assms latestOnly_rescheduled [of s 500 i] show ?thesis
    by (simp add: observerCallback_def)
next
  case (TimerFires tid)
  show ?thesis
  proof (cases "find (\<lambda>task. fst task = tid) (pendingChecks s)")
    case None
    with assms TimerFires show ?thesis by simp
  next
    case (Some task)
    let ?s0 = "s\<lparr>pendingChecks := filter (\<lambda>task. fst task \<noteq> tid) (pendingChecks s)\<rparr>"
    from Some have "task \<in> set (pendingChecks s)" "fst task = tid"
      by (auto simp: find_Some_iff)
    with assms(2) have "pendingChecks s = [task]"
      by (cases "pendingChecks s") (auto simp: latestOnly_def)
    with \<open>fst task = tid\<close> have "latestOnly ?s0"
      by (simp add: latestOnly_def)
    moreover from assms(1) TimerFires Some
    have "checkPageOverflow fuel lay (snd (snd task)) ?s0 = Some s'" by simp
    ultimately show ?thesis by (rule latestOnly_checkPageOverflow [rotated])
  qed
next
  case RecheckAll
  with assms show ?thesis
    by (auto simp: checkAllPagesForOverflow_def dest: latestOnly_checkEach)
qed

lemma latestOnly_run:
  "run fuel lay evs s = Some s' \<Longrightarrow> latestOnly s \<Longrightarrow> latestOnly s'"
proof (induction evs arbitrary: s)
  case Nil
  then show ?case by simp
next
  case (Cons ev evs)
  then show ?case
    by (auto split: option.splits dest: latestOnly_exec)
qed

lemma stale_timer_not_pending:
  assumes "latestOnly s" and "typingTimer s \<noteq> Some tid"
  shows "find (\<lambda>task. fst task = tid) (pendingChecks s) = None"
  using assms by (auto simp: latestOnly_def list_all_iff find_None_iff)

text \<open>
  Claim C10. All overflow checks share one timer handle, and every scheduling clears the
  timer it names before it sets a new one. So when at most the timer named by the handle is
  pending, this stays so after any sequence of input events, mutation records, timers coming due
  and direct re-checks; scheduling a check for a region leaves exactly that new check
  pending, cancelling whatever was pending for this or any other region; and a timer
  other than the latest one runs nothing when it comes due.
\<close>
theorem only_latest_check_pending:
  assumes "latestOnly s"
  shows "(run fuel lay evs s = Some s' \<longrightarrow> latestOnly s') \<and>
         pendingChecks (handleEditorInput r s) = [(nextTimerId s, 500, r)] \<and>
         typingTimer (handleEditorInput r s) = Some (nextTimerId s) \<and>
         pendingChecks (observerCallback r s) = [(nextTimerId s, 500, r)] \<and>
         typingTimer (observerCallback r s) = Some (nextTimerId s) \<and>
         (typingTimer s \<noteq> Some tid \<longrightarrow> exec fuel lay (TimerFires tid) s = Some s)"
proof -
  have m: "latestOnly (markDocumentAsModified s)"
    using assms by (simp add: latestOnly_markModified)
  have h: "pendingChecks (handleEditorInput r s) = [(nextTimerId s, 500, r)]"
    "typingTimer (handleEditorInput r s) = Some (nextTimerId s)"
    using scheduled_after_clear [OF m, of 500 r]
    by (simp_all add: handleEditorInput_def Let_def markDocumentAsModified_def)
  have ob: "pendingChecks (observerCallback r s) = [(nextTimerId s, 500, r)]"
    "typingTimer (observerCallback r s) = Some (nextTimerId s)"
    using scheduled_after_clear [OF assms, of 500 r] by (simp_all add: observerCallback_def)
  have st: "typingTimer s \<noteq> Some tid \<Longrightarrow> exec fuel lay (TimerFires tid) s = Some s"
    using stale_timer_not_pending [OF assms] by simp
  from latestOnly_run [OF _ assms] h ob st show ?thesis by blast
qed

section \<open>Placeholders\<close>

lemma blank_iff: "blank nodes \<longleftrightarrow> (\<forall>n \<in> set nodes. \<forall>c \<in> set (serializeNode n). isWhiteSpace c)"
  by (auto simp: blank_def trim_empty_iff innerHTML_def)

lemma escapeChar_not_space: "\<not> isWhiteSpace c \<Longrightarrow> \<exists>e \<in> set (escapeChar c). \<not> isWhiteSpace e"
  by (auto simp: isWhiteSpace_def)

lemma overflowMarkup_not_blank:
  assumes "trim (overflowMarkup nodes) \<noteq> []"
  shows "\<not> blank nodes"
proof -
  from assms obtain n c where n: "n \<in> set nodes" "c \<in> set (outerHTML_or_textContent n)"
    "\<not> isWhiteSpace c"
    by (auto simp: trim_empty_iff overflowMarkup_def)
  have "\<exists>e \<in> set (serializeNode n). \<not> isWhiteSpace e"
  proof (cases n)
    case (Element h m)
    with n show ?thesis by auto
  next
    case (TextNode t)
    with n have ct: "c \<in> set t" by simp
    from escapeChar_not_space [OF n(3)] obtain e
      where e: "e \<in> set (escapeChar c)" "\<not> isWhiteSpace e" by blast
    from ct e(1) have "e \<in> set (concat (map escapeChar t))"
      unfolding set_concat by (simp del: escapeChar.simps) blast
    with e(2) TextNode show ?thesis
      by (simp del: escapeChar.simps) blast
  qed
  with n(1) show ?thesis by (auto simp: blank_iff)
qed

lemma not_blank_append: "\<not> blank xs \<Longrightarrow> \<not> blank (xs @ ys)"
  by (auto simp: blank_iff)

lemma placeholder_not_blank: "\<not> blank [placeholder h]"
  by (simp add: blank_def placeholder_def innerHTML_def trim_def isWhiteSpace_def)

lemma extract_not_blank:
  assumes "extractOverflowContent br nodes cap = (kept, overflow)"
  shows "splitIndex nodes cap \<noteq> None \<or> \<not> blank nodes \<Longrightarrow> \<not> blank kept"
  using assms placeholder_not_blank [of br]
  by (auto simp: extractOverflowContent_def Let_def blank_def split: option.splits if_splits)

lemma list_all_update: "list_all P xs \<Longrightarrow> P x \<Longrightarrow> list_all P (xs[i := x])"
  by (metis (full_types) insert_iff list_all_iff set_update_subset_insert subsetD)

lemma notBlank_region_nth:
  "noBlankRegion s \<Longrightarrow> i < length (pages s) \<Longrightarrow> editor (pages s ! i) = Some nodes \<Longrightarrow> \<not> blank nodes"
proof -
  assume a: "noBlankRegion s" "i < length (pages s)" "editor (pages s ! i) = Some nodes"
  from a(2) have "regions s ! i \<in> set (regions s)" by (simp add: regions_def)
  with a(1) have "notBlank (regions s ! i)" by (simp add: noBlankRegion_def list_all_iff)
  with a(2,3) show "\<not> blank nodes" by (simp add: regions_def notBlank_def)
qed

lemma regions_installedOnNewPage:
  assumes "i < length (pages s)" and "editor (hd (pages (setEditor i kept s))) \<noteq> None"
  shows "regions (installedOnNewPage i kept overflow s) = (regions s)[i := Some kept] @ [Some overflow]"
proof -
  let ?s1 = "setEditor i kept s"
  let ?s2 = "appendPage (hd (pages ?s1)) ?s1"
  from assms(2) obtain t where t: "editor (hd (pages ?s1)) = Some t" by blast
  have r2: "regions ?s2 = (regions s)[i := Some kept] @ [Some []]"
    using assms(1) t by (simp add: regions_appendPage regions_setEditor)
  have "regions (installedOnNewPage i kept overflow s) = (regions ?s2)[length (pages s) := Some overflow]"
    unfolding installedOnNewPage_def by (rule regions_setEditor) simp
  also have "\<dots> = (regions s)[i := Some kept] @ [Some overflow]"
    unfolding r2 using list_update_length [of "(regions s)[i := Some kept]" "Some []" "[]" "Some overflow"]
    by (simp add: regions_def)
  finally show ?thesis .
qed

lemma regions_prependedToNext:
  "i < length (pages s) \<Longrightarrow>
     regions (prependedToNext i kept overflow following s) =
       (regions s)[i := Some kept, i + 1 := Some (overflow @ following)]"
  by (cases "i + 1 < length (pages s)")
     (simp_all add: prependedToNext_def regions_setEditor regions_def setEditor_def map_update)

lemma noBlank_setEditor:
  "noBlankRegion s \<Longrightarrow> i < length (pages s) \<Longrightarrow> \<not> blank nodes \<Longrightarrow> noBlankRegion (setEditor i nodes s)"
  unfolding noBlankRegion_def
  by (simp add: regions_setEditor) (rule list_all_update, simp_all add: notBlank_def)

lemma noBlank_split:
  assumes "noBlankRegion s" and "i < length (pages s)" and "editor (pages s ! i) = Some nodes"
    and "extractOverflowContent br nodes cap = (kept, overflow)"
  shows "noBlankRegion (setEditor i kept s)" and "\<not> blank kept"
proof -
  from notBlank_region_nth [OF assms(1-3)] extract_not_blank [OF assms(4)]
  show k: "\<not> blank kept" by simp
  from noBlank_setEditor [OF assms(1,2) k] show "noBlankRegion (setEditor i kept s)" .
qed

lemma noBlank_new_page:
  assumes "noBlankRegion s" and "i < length (pages s)" and "\<not> blank kept"
    and "\<not> blank overflow" and "editor (hd (pages (setEditor i kept s))) \<noteq> None"
  shows "noBlankRegion (installedOnNewPage i kept overflow s)"
proof -
  have "list_all notBlank ((regions s)[i := Some kept])"
    by (rule list_all_update) (use assms(1,3) in \<open>simp_all add: notBlank_def noBlankRegion_def\<close>)
  with assms(4) show ?thesis
    unfolding noBlankRegion_def regions_installedOnNewPage [OF assms(2,5)]
    by (simp add: notBlank_def)
qed

lemma noBlank_lost:
  assumes "noBlankRegion s1" and "editor t = None"
  shows "noBlankRegion (appendPage t s1)"
  using assms unfolding noBlankRegion_def regions_appendPage by (simp add: notBlank_def)

lemma noBlank_next_page:
  assumes "noBlankRegion s" and "i < length (pages s)" and "\<not> blank kept" and "\<not> blank overflow"
  shows "noBlankRegion (prependedToNext i kept overflow following s)"
proof -
  have "list_all notBlank ((regions s)[i := Some kept])"
    by (rule list_all_update) (use assms(1,3) in \<open>simp_all add: notBlank_def noBlankRegion_def\<close>)
  then have "list_all notBlank ((regions s)[i := Some kept, i + 1 := Some (overflow @ following)])"
    by (rule list_all_update)
      (use not_blank_append [OF assms(4), of following] in \<open>simp_all add: notBlank_def\<close>)
  then show ?thesis
    unfolding noBlankRegion_def regions_prependedToNext [OF assms(2)] .
qed

lemma noBlankRegion_checkPageOverflow:
  assumes "checkPageOverflow fuel lay i s = Some s'" and "noBlankRegion s"
  shows "noBlankRegion s'"
proof (rule checkPageOverflow_preserves [where P = noBlankRegion, OF assms])
  show "noBlankRegion (setTimeoutCheck 100 i (clearTimeout (typingTimer s) s))"
    if "noBlankRegion s" for s i
    using that by (simp add: noBlankRegion_def)
  show "noBlankRegion (updateUI s)" if "noBlankRegion s" for s
    using that by (simp add: noBlankRegion_def)
  show "noBlankRegion (setEditor i kept s)"
    if "noBlankRegion s" "i < length (pages s)" "editor (pages s ! i) = Some nodes"
      "extractOverflowContent (brHeight lay) nodes (pageHeight s) = (kept, overflow)"
    for s i nodes kept overflow
    using noBlank_split(1) [OF that] .
  show "noBlankRegion (installedOnNewPage i kept overflow s)"
    if "noBlankRegion s" "i < length (pages s)" "editor (pages s ! i) = Some nodes"
      "extractOverflowContent (brHeight lay) nodes (pageHeight s) = (kept, overflow)"
      "trim (overflowMarkup overflow) \<noteq> []"
      "editor (hd (pages (setEditor i kept s))) \<noteq> None"
    for s i nodes kept overflow
    using noBlank_new_page [OF that(1,2) noBlank_split(2) [OF that(1-4)]
        overflowMarkup_not_blank [OF that(5)] that(6)] .
  show "noBlankRegion (appendPage (hd (pages (setEditor i kept s))) (setEditor i kept s))"
    if "noBlankRegion s" "i < length (pages s)" "editor (pages s ! i) = Some nodes"
      "extractOverflowContent (brHeight lay) nodes (pageHeight s) = (kept, overflow)"
      "editor (hd (pages (setEditor i kept s))) = None"
    for s i nodes kept overflow
    using noBlank_lost [OF noBlank_split(1) [OF that(1-4)] that(5)] .
  show "noBlankRegion (prependedToNext i kept overflow following s)"
    if "noBlankRegion s" "i < length (pages s)" "editor (pages s ! i) = Some nodes"
      "extractOverflowContent (brHeight lay) nodes (pageHeight s) = (kept, overflow)"
      "trim (overflowMarkup overflow) \<noteq> []"
    for s i nodes kept overflow following
    using noBlank_next_page [OF that(1,2) noBlank_split(2) [OF that(1-4)]
        overflowMarkup_not_blank [OF that(5)]] .
qed

text \<open>
  Claim C8, as amended. The splitter never leaves a region blank: whenever it splits, the
  region keeps non-blank markup or receives the placeholder break. An overflow check
  (splits and redistributions through any number of pages) that starts from a document
  without a blank region ends in one. Resetting the document and adding a page clear
  regions to empty markup and insert no placeholder.
\<close>
theorem split_and_redistribution_keep_regions_filled:
  "(splitIndex nodes cap \<noteq> None \<longrightarrow> \<not> blank (fst (extractOverflowContent br nodes cap))) \<and>
   (noBlankRegion s \<and> checkPageOverflow fuel lay i s = Some s' \<longrightarrow> noBlankRegion s')"
proof -
  have "splitIndex nodes cap \<noteq> None \<Longrightarrow> \<not> blank (fst (extractOverflowContent br nodes cap))"
    using extract_not_blank [of br nodes cap] by (cases "extractOverflowContent br nodes cap") auto
  with noBlankRegion_checkPageOverflow show ?thesis by blast
qed

section \<open>Further auxiliary facts\<close>

lemma findSplit_NaN: "findSplit ns i NaN m = None"
  by (induction ns arbitrary: i) auto

lemma findSplit_elements:
  "findSplit ns i c m = Some k \<Longrightarrow> \<forall>n \<in> set (take (Suc (k - i)) ns). \<exists>h mk. n = Element h mk"
proof (induction ns arbitrary: i c)
  case Nil
  then show ?case by simp
next
  case (Cons n ns)
  show ?case
  proof (cases n)
    case (TextNode t)
    with Cons.prems show ?thesis
      by (cases c) (simp_all add: findSplit_NaN)
  next
    case (Element h mk)
    show ?thesis
    proof (cases "num_gt (num_add c (offsetHeight n)) m")
      case True
      with Cons.prems Element show ?thesis by simp
    next
      case False
      with Cons.prems have rec: "findSplit ns (Suc i) (num_add c (offsetHeight n)) m = Some k"
        by simp
      from findSplit_range [OF rec] have "k - i = Suc (k - Suc i)" by arith
      with Cons.IH [OF rec] Element show ?thesis by simp
    qed
  qed
qed

lemma split_prefix_elements:
  assumes "splitIndex nodes cap = Some k"
  shows "\<forall>n \<in> set (take (Suc k) nodes). \<exists>h mk. n = Element h mk"
  using findSplit_elements [of nodes 0 "Num 0" cap k] assms by (simp add: splitIndex_def)

lemma regions_handleEditorInput [simp]: "regions (handleEditorInput i s) = regions s"
  by (simp add: handleEditorInput_def Let_def markDocumentAsModified_def regions_def)

lemma regions_observerCallback [simp]: "regions (observerCallback i s) = regions s"
  by (simp add: observerCallback_def)

section \<open>Bookkeeping after structural changes\<close>

lemma checkPageOverflow_refreshes:
  assumes "checkPageOverflow fuel lay i s = Some s'" and "regions s' \<noteq> regions s"
  shows "\<exists>t. s' = updateUI t"
proof (cases fuel)
  case 0
  with assms show ?thesis by simp
next
  case (Suc f)
  show ?thesis
  proof (cases "length (pages s) \<le> i \<or> editor (pages s ! i) = None")
    case True
    from checkPageOverflow_out_of_range [OF True, of f lay] assms Suc show ?thesis by simp
  next
    case False
    then obtain nodes where valid: "i < length (pages s)" "editor (pages s ! i) = Some nodes"
      by auto
    obtain kept overflow
      where split: "extractOverflowContent (brHeight lay) nodes (pageHeight s) = (kept, overflow)"
      by (cases "extractOverflowContent (brHeight lay) nodes (pageHeight s)") auto
    from assms(1) Suc have "checkPageOverflow (Suc f) lay i s = Some s'" by simp
    then have "s' = setTimeoutCheck 100 i (clearTimeout (typingTimer s) s) \<or> (\<exists>t. s' = updateUI t)"
      unfolding checkPageOverflow_Suc [OF valid split, of f]
      by (auto split: if_splits)
    with assms(2) show ?thesis by auto
  qed
qed

lemma modified_setEditor [simp]: "documentModified (setEditor i nodes s) = documentModified s"
  by (simp add: setEditor_def)

lemma modified_appendPage [simp]: "documentModified (appendPage t s) = documentModified s"
  by (simp add: appendPage_def Let_def focusEditor_def split: option.splits)

lemma modified_setTimeoutCheck [simp]: "documentModified (setTimeoutCheck d i s) = documentModified s"
  by (simp add: setTimeoutCheck_def)

lemma unmodified_checkPageOverflow:
  assumes "checkPageOverflow fuel lay i s = Some s'"
  shows "documentModified s' = documentModified s"
proof -
  have "unmodified (documentModified s) s'"
    by (rule checkPageOverflow_preserves [where P = "unmodified (documentModified s)", OF assms])
      (simp_all add: unmodified_def installedOnNewPage_def prependedToNext_def)
  then show ?thesis by (simp add: unmodified_def)
qed

lemma currentPage_setEditor [simp]: "currentPage (setEditor i nodes s) = currentPage s"
  by (simp add: setEditor_def)

lemma currentPage_timer_ops [simp]:
  "currentPage (setTimeoutCheck d i s) = currentPage s"
  "currentPage (clearTimeout t s) = currentPage s"
  by (simp_all add: setTimeoutCheck_def clearTimeout_def split: option.splits)

lemma inRange_appendPage: "currentPageInRange s \<Longrightarrow> currentPageInRange (appendPage t s)"
  by (auto simp: currentPageInRange_def appendPage_def Let_def focusEditor_def updateUI_def
      updatePageNumbers_def split: option.splits)

lemma inRange_checkPageOverflow:
  assumes "checkPageOverflow fuel lay i s = Some s'" and "currentPageInRange s"
  shows "currentPageInRange s'"
proof (rule checkPageOverflow_preserves [where P = currentPageInRange, OF assms])
  show "currentPageInRange (appendPage (hd (pages (setEditor i kept s))) (setEditor i kept s))"
    if "currentPageInRange s" for s i kept
    by (rule inRange_appendPage) (use that in \<open>simp add: currentPageInRange_def\<close>)
  show "currentPageInRange (installedOnNewPage i kept overflow s)"
    if "currentPageInRange s" for s i kept overflow
  proof -
    have "currentPageInRange (appendPage (hd (pages (setEditor i kept s))) (setEditor i kept s))"
      by (rule inRange_appendPage) (use that in \<open>simp add: currentPageInRange_def\<close>)
    then show ?thesis by (simp add: currentPageInRange_def installedOnNewPage_def)
  qed
qed (simp_all add: currentPageInRange_def prependedToNext_def)

lemma addPage_bookkeeping:
  assumes "addPage s = Inr s2"
  shows "length (pages s2) = length (pages s) + 1" and "numbered (pages s2)"
    and "totalPages s2 = length (pages s2)" and "documentModified s2 = documentModified s"
    and "currentPageInRange s \<Longrightarrow> currentPageInRange s2"
proof -
  from assms obtain t where s2: "s2 = appendPage t s"
    by (auto simp: addPage_def split: list.splits)
  show "length (pages s2) = length (pages s) + 1" by (simp add: s2)
  show "numbered (pages s2)" "totalPages s2 = length (pages s2)"
    by (simp_all add: s2 appendPage_def Let_def)
  show "documentModified s2 = documentModified s" by (simp add: s2)
  show "currentPageInRange s \<Longrightarrow> currentPageInRange s2" by (simp add: s2 inRange_appendPage)
qed

lemma keydownBackspace_cases:
  "keydownBackspace s = s \<or>
   (\<exists>i t. 0 < i \<and> i < length (pages s) \<and> pages t = removePage i (pages s) \<and>
      documentModified t = documentModified s \<and>
      (currentPage t = currentPage s \<or> currentPage t = i) \<and>
      keydownBackspace s =
        (updatePageNumbers t)\<lparr>totalPages := length (pages (updatePageNumbers t)),
           currentPage := min (currentPage t) (length (pages (updatePageNumbers t)))\<rparr>)"
proof (cases "keydownBackspace s = s")
  case True
  then show ?thesis by simp
next
  case False
  then obtain i nodes where c: "activeElement s = Some i" "i < length (pages s)"
    "editor (pages s ! i) = Some nodes" "htmlContent nodes = []" "0 < i"
    by (auto simp: keydownBackspace_def split: option.splits if_splits)
  define s1 where "s1 = s\<lparr>pages := removePage i (pages s), activeElement := None,
      selectedEditor := map_option (afterRemoval i) (selectedEditor s),
      caret := caretAfterRemoval i (caret s)\<rparr>"
  define t where "t = (case editor (pages s ! (i - 1)) of None \<Rightarrow> s1
      | Some _ \<Rightarrow> (focusEditor (i - 1) s1)\<lparr>selectedEditor := Some (PageEditor (i - 1))\<rparr>)"
  have k: "keydownBackspace s =
      (updatePageNumbers t)\<lparr>totalPages := length (pages (updatePageNumbers t)),
         currentPage := min (currentPage t) (length (pages (updatePageNumbers t)))\<rparr>"
    unfolding t_def s1_def using c
    by (simp add: keydownBackspace_def Let_def updatePageNumbers_def)
  have "pages t = removePage i (pages s)" "documentModified t = documentModified s"
    "currentPage t = currentPage s \<or> currentPage t = i"
    using c(5) by (auto simp: t_def s1_def focusEditor_def Let_def split: option.splits)
  with c(2,5) k show ?thesis by blast
qed

lemma keydownBackspace_bookkeeping:
  shows "regions (keydownBackspace s) \<noteq> regions s \<Longrightarrow>
           numbered (pages (keydownBackspace s)) \<and>
           totalPages (keydownBackspace s) = length (pages (keydownBackspace s))"
    and "documentModified (keydownBackspace s) = documentModified s"
    and "currentPageInRange s \<Longrightarrow> currentPageInRange (keydownBackspace s)"
proof -
  from keydownBackspace_cases [of s]
  consider "keydownBackspace s = s"
    | i t where "0 < i" "i < length (pages s)" "pages t = removePage i (pages s)"
        "documentModified t = documentModified s"
        "currentPage t = currentPage s \<or> currentPage t = i"
        "keydownBackspace s =
          (updatePageNumbers t)\<lparr>totalPages := length (pages (updatePageNumbers t)),
             currentPage := min (currentPage t) (length (pages (updatePageNumbers t)))\<rparr>"
    by blast
  then have "(regions (keydownBackspace s) \<noteq> regions s \<longrightarrow>
           numbered (pages (keydownBackspace s)) \<and>
           totalPages (keydownBackspace s) = length (pages (keydownBackspace s))) \<and>
       documentModified (keydownBackspace s) = documentModified s \<and>
       (currentPageInRange s \<longrightarrow> currentPageInRange (keydownBackspace s))"
  proof cases
    case 1
    then show ?thesis by simp
  next
    case 2
    from 2(1,2) have len: "length (removePage i (pages s)) = length (pages s) - 1"
      "1 \<le> length (pages s) - 1" "i \<le> length (pages s) - 1"
      by (simp_all add: length_removePage)
    show ?thesis
      unfolding 2(6) using 2(1,3,4,5) len
      by (auto simp: updatePageNumbers_def numbered_renumber currentPageInRange_def)
  qed
  then show "regions (keydownBackspace s) \<noteq> regions s \<Longrightarrow>
           numbered (pages (keydownBackspace s)) \<and>
           totalPages (keydownBackspace s) = length (pages (keydownBackspace s))"
    and "documentModified (keydownBackspace s) = documentModified s"
    and "currentPageInRange s \<Longrightarrow> currentPageInRange (keydownBackspace s)"
    by simp_all
qed

text \<open>
  Claim C7, as amended. After an overflow check that changed some region, after
  \<open>addPage\<close> and after the removal of an empty page, every page label shows the position
  of its page and \<open>totalPages\<close> is the number of pages; a current page number within the
  document stays within it. None of the three changes \<open>documentModified\<close>; it is set by
  the input handler.
\<close>
theorem structural_change_bookkeeping:
  "(checkPageOverflow fuel lay i s = Some s1 \<longrightarrow>
      (regions s1 \<noteq> regions s \<longrightarrow> numbered (pages s1) \<and> totalPages s1 = length (pages s1)) \<and>
      documentModified s1 = documentModified s \<and>
      (currentPageInRange s \<longrightarrow> currentPageInRange s1)) \<and>
   (addPage s = Inr s2 \<longrightarrow>
      length (pages s2) = length (pages s) + 1 \<and>
      numbered (pages s2) \<and> totalPages s2 = length (pages s2) \<and>
      documentModified s2 = documentModified s \<and>
      (currentPageInRange s \<longrightarrow> currentPageInRange s2)) \<and>
   (regions (keydownBackspace s) \<noteq> regions s \<longrightarrow>
      numbered (pages (keydownBackspace s)) \<and>
      totalPages (keydownBackspace s) = length (pages (keydownBackspace s))) \<and>
   documentModified (keydownBackspace s) = documentModified s \<and>
   (currentPageInRange s \<longrightarrow> currentPageInRange (keydownBackspace s)) \<and>
   documentModified (handleEditorInput r s)"
proof -
  have a: "(regions s1 \<noteq> regions s \<longrightarrow> numbered (pages s1) \<and> totalPages s1 = length (pages s1)) \<and>
      documentModified s1 = documentModified s \<and>
      (currentPageInRange s \<longrightarrow> currentPageInRange s1)"
    if r: "checkPageOverflow fuel lay i s = Some s1"
  proof -
    have "numbered (pages s1) \<and> totalPages s1 = length (pages s1)" if "regions s1 \<noteq> regions s"
    proof -
      from checkPageOverflow_refreshes [OF r that] obtain t where "s1 = updateUI t" by blast
      then show ?thesis by simp
    qed
    with unmodified_checkPageOverflow [OF r] inRange_checkPageOverflow [OF r]
    show ?thesis by blast
  qed
  have h: "documentModified (handleEditorInput r s)"
    by (simp add: handleEditorInput_def Let_def markDocumentAsModified_def)
  from a addPage_bookkeeping [of s s2] keydownBackspace_bookkeeping [of s] h
  show ?thesis by blast
qed

section \<open>Where the check does not split or does not settle\<close>

text \<open>
  A text node has no \<open>offsetHeight\<close>: from there on the running total is \<open>NaN\<close> and no
  position is chosen, so a split index always lies before the first text node of a region.
  An element higher than the capacity at the head of the last region is handed on whole
  from page to fresh page, each left with the placeholder: the recursion does not end, and
  no amount of fuel yields a result.
\<close>

lemma text_node_prevents_split:
  assumes "splitIndex (before @ TextNode t # rest) cap = Some k"
  shows "k < length before"
proof (rule ccontr)
  assume n: "\<not> k < length before"
  let ?xs = "before @ TextNode t # rest"
  have "length before < length (take (Suc k) ?xs)" using n by simp
  moreover have "take (Suc k) ?xs ! length before = ?xs ! length before"
    by (rule nth_take) (use n in simp)
  then have "take (Suc k) ?xs ! length before = TextNode t" by simp
  ultimately have "TextNode t \<in> set (take (Suc k) ?xs)"
    by (metis nth_mem)
  with split_prefix_elements [OF assms] show False by auto
qed

lemma pageHeight_installedOnNewPage [simp]:
  "pageHeight (installedOnNewPage i kept overflow s) = pageHeight s"
  by (simp add: installedOnNewPage_def setEditor_def appendPage_def Let_def focusEditor_def
      split: option.splits)

lemma length_installedOnNewPage [simp]:
  "length (pages (installedOnNewPage i kept overflow s)) = Suc (length (pages s))"
  by (simp add: installedOnNewPage_def)

lemma hd_installedOnNewPage:
  assumes "i < length (pages s)" and "editor (hd (pages (setEditor i kept s))) \<noteq> None"
  shows "editor (hd (pages (installedOnNewPage i kept overflow s))) \<noteq> None"
proof -
  let ?t = "installedOnNewPage i kept overflow s"
  let ?s1 = "setEditor i kept s"
  have r: "regions ?t = regions ?s1 @ [Some overflow]"
    using regions_installedOnNewPage [OF assms] regions_setEditor [OF assms(1)] by simp
  from assms(1) have l: "0 < length (pages ?s1)" "0 < length (pages ?t)"
    by (simp_all del: length_greater_0_conv)
  then have "pages ?s1 \<noteq> []" "pages ?t \<noteq> []"
    by (metis length_greater_0_conv)+
  then have h: "hd (pages ?s1) = pages ?s1 ! 0" "hd (pages ?t) = pages ?t ! 0"
    by (simp_all add: hd_conv_nth)
  have "regions ?t ! 0 = regions ?s1 ! 0"
    unfolding r using l(1) by (simp add: nth_append regions_def)
  then have "editor (pages ?t ! 0) = editor (pages ?s1 ! 0)"
    using editor_nth_regions [OF l(1)] editor_nth_regions [OF l(2)] by simp
  with assms(2) h show ?thesis by simp
qed

lemma oversized_block_never_settles:
  assumes "i < length (pages s)" and "i = length (pages s) - 1"
    and "editor (pages s ! i) = Some (Element h m # rest)"
    and "editor (hd (pages s)) \<noteq> None"
    and "pageHeight s = Num cap" and "0 \<le> cap" and "of_int h > cap" and "trim m \<noteq> []"
    and "of_int (scrollHeight lay (Element h m # rest)) > cap + 5"
  shows "checkPageOverflow fuel lay i s = None"
  using assms(1-5)
proof (induction fuel arbitrary: i s)
  case 0
  then show ?case by simp
next
  case (Suc fuel)
  let ?nodes = "Element h m # rest"
  have sp: "extractOverflowContent (brHeight lay) ?nodes (pageHeight s) =
      ([placeholder (brHeight lay)], ?nodes)"
    using assms(7) Suc.prems(5)
    by (simp add: splitIndex_def extractOverflowContent_def innerHTML_def trim_def)
  have ne: "trim (overflowMarkup ?nodes) \<noteq> []"
    using assms(8) by (auto simp: trim_empty_iff overflowMarkup_def)
  have sh: "scrollHeight lay ?nodes \<noteq> 0" "num_gt (Num (of_int (scrollHeight lay ?nodes))) (num_add (pageHeight s) (Num 5))"
    using assms(6,9) Suc.prems(5) by auto
  let ?t = "installedOnNewPage i [placeholder (brHeight lay)] ?nodes s"
  have tpl: "editor (hd (pages (setEditor i [placeholder (brHeight lay)] s))) \<noteq> None"
  proof -
    from Suc.prems(1) have "0 < length (pages s)" by (simp del: length_greater_0_conv)
    then have "pages s \<noteq> []" by (metis length_greater_0_conv)
    from hd_pages_setEditor [OF this Suc.prems(4)] show ?thesis .
  qed
  have eq: "checkPageOverflow (Suc fuel) lay i s =
      map_option updateUI (checkPageOverflow fuel lay (length (pages s)) ?t)"
  proof -
    have c: "(scrollHeight lay ?nodes = 0 \<and> trim (innerText lay ?nodes) \<noteq> []) = False"
      "(\<not> num_gt (Num (of_int (scrollHeight lay ?nodes))) (num_add (pageHeight s) (Num 5))) = False"
      "(trim (overflowMarkup ?nodes) = []) = False"
      "(i = length (pages s) - 1 \<or> editor (pages s ! (i + 1)) = None) = True"
      "(editor (hd (pages (setEditor i [placeholder (brHeight lay)] s))) = None) = False"
      using sh ne Suc.prems(2) tpl by simp_all
    show ?thesis
      unfolding checkPageOverflow_Suc [OF Suc.prems(1,3) sp]
      by (simp only: c if_True if_False)
  qed
  have r: "regions ?t = (regions s)[i := Some [placeholder (brHeight lay)]] @ [Some ?nodes]"
    by (rule regions_installedOnNewPage [OF Suc.prems(1) tpl])
  have "editor (pages ?t ! length (pages s)) = Some ?nodes"
  proof -
    have "regions ?t ! length (pages s) = Some ?nodes"
      unfolding r by (simp add: nth_append regions_def)
    then show ?thesis by (simp add: regions_def)
  qed
  moreover have "editor (hd (pages ?t)) \<noteq> None"
    by (rule hd_installedOnNewPage [OF Suc.prems(1) tpl])
  ultimately have "checkPageOverflow fuel lay (length (pages s)) ?t = None"
    using Suc.prems(5) by (intro Suc.IH) simp_all
  with eq show ?case by simp
qed

section \<open>Moving the overflow forward\<close>




lemma wired_updateUI [simp]: "map wired (pages (updateUI s)) = map wired (pages s)"
  by (simp add: updateUI_def updatePageNumbers_def)


lemma pageHeight_setEditor [simp]: "pageHeight (setEditor i nodes s) = pageHeight s"
  by (simp add: setEditor_def)

lemma pageHeight_prependedToNext [simp]:
  "pageHeight (prependedToNext i kept overflow following s) = pageHeight s"
  by (simp add: prependedToNext_def)


text \<open>
  Outside documents of blocks the string handed on is not the serialisation of the nodes
  moved: a text node contributes its text unescaped.
\<close>

lemma text_markup_not_serialisation:
  "overflowMarkup [TextNode ''<b>x</b>''] = ''<b>x</b>'' \<and>
   innerHTML [TextNode ''<b>x</b>''] = ''&lt;b&gt;x&lt;/b&gt;''"
  by (simp add: overflowMarkup_def innerHTML_def)

section \<open>Conservation of content\<close>




















lemma pageHeight_timer_ops [simp]:
  "pageHeight (clearTimeout t s) = pageHeight s"
  "pageHeight (setTimeoutCheck d i s) = pageHeight s"
  "pageHeight (handleEditorInput i s) = pageHeight s"
  "pageHeight (observerCallback i s) = pageHeight s"
  by (simp_all add: clearTimeout_def setTimeoutCheck_def handleEditorInput_def
      observerCallback_def markDocumentAsModified_def Let_def split: option.splits)

lemma nodesOf_Some [simp]: "nodesOf (Some nodes) = nodes"
  by (simp add: nodesOf_def)












section \<open>Worked instances\<close>

lemmas demo = para_def demoLayout_def demoPage_def demoSession_def unrenderedLayout_def

lemmas run_defs = totalHeight_def regions_def extractOverflowContent_def splitIndex_def
     innerHTML_def overflowMarkup_def trim_def isWhiteSpace_def Let_def setEditor_def appendPage_def
     updateUI_def updatePageNumbers_def focusEditor_def

theorem stable_region_unchanged_witness:
  "stable demoLayout (demoSession [[para 300 ''a'', para 400 ''b'']]) [para 300 ''a'', para 400 ''b''] \<and>
   map_option regions
     (checkPageOverflow (Suc 0) demoLayout 0 (demoSession [[para 300 ''a'', para 400 ''b'']])) =
     Some [Some [para 300 ''a'', para 400 ''b'']]"
  using stable_region_unchanged [where i = 0 and s = "demoSession [[para 300 ''a'', para 400 ''b'']]"
      and nodes = "[para 300 ''a'', para 400 ''b'']" and lay = demoLayout and fuel = 0]
  by (simp add: demo stable_def totalHeight_def regions_def)


lemma htmlContent_placeholder: "htmlContent [placeholder h] = []"
  by (simp add: htmlContent_def placeholder_def innerHTML_def trim_def isWhiteSpace_def
      matchBr_def matchNbsp_def toLower_def)

theorem backspace_removes_empty_page_witness:
  "htmlContent [placeholder 20] = [] \<and>
   regions (keydownBackspace
     ((demoSession [[para 300 ''a''], [placeholder 20], [para 400 ''b'']])
        \<lparr>activeElement := Some 1, currentPage := 2\<rparr>)) =
     [Some [para 300 ''a''], Some [para 400 ''b'']] \<and>
   map pageNumber (pages (keydownBackspace
     ((demoSession [[para 300 ''a''], [placeholder 20], [para 400 ''b'']])
        \<lparr>activeElement := Some 1, currentPage := 2\<rparr>))) = [Some 1, Some 2] \<and>
   totalPages (keydownBackspace
     ((demoSession [[para 300 ''a''], [placeholder 20], [para 400 ''b'']])
        \<lparr>activeElement := Some 1, currentPage := 2\<rparr>)) = 2 \<and>
   activeElement (keydownBackspace
     ((demoSession [[para 300 ''a''], [placeholder 20], [para 400 ''b'']])
        \<lparr>activeElement := Some 1, currentPage := 2\<rparr>)) = Some 0 \<and>
   caret (keydownBackspace
     ((demoSession [[para 300 ''a''], [placeholder 20], [para 400 ''b'']])
        \<lparr>activeElement := Some 1, currentPage := 2\<rparr>)) = Some (0, 0) \<and>
   keydownBackspace
     ((demoSession [[placeholder 20], [para 400 ''b'']])\<lparr>activeElement := Some 0\<rparr>) =
     (demoSession [[placeholder 20], [para 400 ''b'']])\<lparr>activeElement := Some 0\<rparr>"
proof -
  let ?d = "(demoSession [[para 300 ''a''], [placeholder 20], [para 400 ''b'']])
        \<lparr>activeElement := Some 1, currentPage := 2\<rparr>"
  let ?e = "(demoSession [[placeholder 20], [para 400 ''b'']])\<lparr>activeElement := Some 0\<rparr>"
  have n: "map pageNumber (pages (keydownBackspace ?d)) = [Some 1, Some 2]"
    by (simp add: keydownBackspace_def htmlContent_placeholder demo Let_def removePage_def
        updatePageNumbers_def focusEditor_def)
  from backspace_removes_empty_page [where s = ?d and i = 1 and nodes = "[placeholder 20]"
      and previous = "[para 300 ''a'']"]
    backspace_removes_empty_page [where s = ?e and i = 0 and nodes = "[placeholder 20]"] n
  show ?thesis
    by (simp add: htmlContent_placeholder demo regions_def)
qed



text \<open>
  Against claim C6 as stated: the empty second page is removed and the first region gets
  the focus, but in a browser that puts the caret of a newly focused region at its start
  the caret is before the paragraph of that region, not after it.
\<close>

theorem focus_lands_at_browser_default:
  "htmlContent [placeholder 20] = [] \<and>
   regions (keydownBackspace
     ((demoSession [[para 300 ''a''], [placeholder 20]])\<lparr>activeElement := Some 1\<rparr>)) =
     [Some [para 300 ''a'']] \<and>
   activeElement (keydownBackspace
     ((demoSession [[para 300 ''a''], [placeholder 20]])\<lparr>activeElement := Some 1\<rparr>)) = Some 0 \<and>
   caret (keydownBackspace
     ((demoSession [[para 300 ''a''], [placeholder 20]])\<lparr>activeElement := Some 1\<rparr>)) = Some (0, 0) \<and>
   \<not> caretAtEnd 0 (keydownBackspace
     ((demoSession [[para 300 ''a''], [placeholder 20]])\<lparr>activeElement := Some 1\<rparr>))"
  by (simp add: keydownBackspace_def htmlContent_placeholder demo Let_def removePage_def
      updatePageNumbers_def focusEditor_def regions_def caretAtEnd_def caretAfterRemoval_def)

lemma demo_split_returns:
  "\<exists>s1. checkPageOverflow (Suc (Suc 0)) demoLayout 0
       (demoSession [[para 300 ''a'', para 400 ''b'', para 500 ''c'']]) = Some s1 \<and>
     regions s1 = [Some [para 300 ''a'', para 400 ''b''], Some [para 500 ''c'']] \<and>
     map pageNumber (pages s1) = [Some 1, Some 2] \<and> totalPages s1 = 2 \<and> currentPage s1 = 2 \<and>
     \<not> documentModified s1"
  by (simp add: demo run_defs)

text \<open>
  Against claim C7 as stated: a check on an unmodified one-page document moves the third
  block to a new page and leaves \<open>documentModified\<close> false.
\<close>

theorem redistribution_leaves_modified_flag:
  "regions (demoSession [[para 300 ''a'', para 400 ''b'', para 500 ''c'']]) =
     [Some [para 300 ''a'', para 400 ''b'', para 500 ''c'']] \<and>
   map_option regions (checkPageOverflow (Suc (Suc 0)) demoLayout 0
       (demoSession [[para 300 ''a'', para 400 ''b'', para 500 ''c'']])) =
     Some [Some [para 300 ''a'', para 400 ''b''], Some [para 500 ''c'']] \<and>
   map_option documentModified (checkPageOverflow (Suc (Suc 0)) demoLayout 0
       (demoSession [[para 300 ''a'', para 400 ''b'', para 500 ''c'']])) = Some False"
proof -
  let ?d = "demoSession [[para 300 ''a'', para 400 ''b'', para 500 ''c'']]"
  from demo_split_returns obtain s1
    where s1: "checkPageOverflow (Suc (Suc 0)) demoLayout 0 ?d = Some s1"
      "regions s1 = [Some [para 300 ''a'', para 400 ''b''], Some [para 500 ''c'']]"
      "\<not> documentModified s1"
    by blast
  have r: "regions ?d = [Some [para 300 ''a'', para 400 ''b'', para 500 ''c'']]"
    by (simp add: demo regions_def)
  show ?thesis unfolding s1(1) using s1(2,3) r by simp
qed

theorem structural_change_bookkeeping_witness:
  "map_option (\<lambda>s1. regions s1 \<noteq> regions (demoSession [[para 300 ''a'', para 400 ''b'', para 500 ''c'']]))
     (checkPageOverflow (Suc (Suc 0)) demoLayout 0
       (demoSession [[para 300 ''a'', para 400 ''b'', para 500 ''c'']])) = Some True \<and>
   map_option (\<lambda>s1. numbered (pages s1) \<and> totalPages s1 = length (pages s1) \<and> currentPageInRange s1)
     (checkPageOverflow (Suc (Suc 0)) demoLayout 0
       (demoSession [[para 300 ''a'', para 400 ''b'', para 500 ''c'']])) = Some True \<and>
   currentPageInRange (demoSession [[para 300 ''a'', para 400 ''b'', para 500 ''c'']]) \<and>
   documentModified (handleEditorInput 0 (demoSession [[para 300 ''a'', para 400 ''b'', para 500 ''c'']]))"
proof -
  let ?d = "demoSession [[para 300 ''a'', para 400 ''b'', para 500 ''c'']]"
  from demo_split_returns obtain s1
    where s1: "checkPageOverflow (Suc (Suc 0)) demoLayout 0 ?d = Some s1"
      "regions s1 = [Some [para 300 ''a'', para 400 ''b''], Some [para 500 ''c'']]"
    by blast
  have r: "regions s1 \<noteq> regions ?d" by (simp add: s1(2)) (simp add: demo regions_def)
  have c: "currentPageInRange ?d" by (simp add: demo currentPageInRange_def)
  from structural_change_bookkeeping [where s = ?d and fuel = "Suc (Suc 0)" and lay = demoLayout
      and i = 0 and ?s1.0 = s1 and r = 0] s1(1) r c
  show ?thesis unfolding s1(1) by simp
qed

text \<open>
  Against claim C8 as stated: after \<open>resetDocument\<close> the region of the first page has no
  child node at all, and the region of a page made by \<open>addPage\<close> has none either.
\<close>

theorem cleared_regions_have_no_placeholder:
  "noBlankRegion (demoSession [[para 300 ''a'']]) \<and>
   regions (resetDocument (demoSession [[para 300 ''a'']])) = [Some []] \<and>
   map_sum id regions (addPage (demoSession [[para 300 ''a'']])) = Inr [Some [para 300 ''a''], Some []] \<and>
   blank [] \<and>
   \<not> noBlankRegion (resetDocument (demoSession [[para 300 ''a'']]))"
  by (simp add: demo regions_def resetDocument_def addPage_def appendPage_def Let_def updateUI_def
      updatePageNumbers_def focusEditor_def noBlankRegion_def notBlank_def blank_def innerHTML_def
      trim_def isWhiteSpace_def)

theorem split_and_redistribution_keep_regions_filled_witness:
  "splitIndex [para 1500 ''big''] (Num 1000) \<noteq> None \<and>
   fst (extractOverflowContent 20 [para 1500 ''big''] (Num 1000)) = [placeholder 20] \<and>
   \<not> blank (fst (extractOverflowContent 20 [para 1500 ''big''] (Num 1000))) \<and>
   noBlankRegion (demoSession [[para 300 ''a'', para 400 ''b'', para 500 ''c'']]) \<and>
   map_option noBlankRegion (checkPageOverflow (Suc (Suc 0)) demoLayout 0
       (demoSession [[para 300 ''a'', para 400 ''b'', para 500 ''c'']])) = Some True"
proof -
  let ?d = "demoSession [[para 300 ''a'', para 400 ''b'', para 500 ''c'']]"
  from demo_split_returns obtain s1
    where s1: "checkPageOverflow (Suc (Suc 0)) demoLayout 0 ?d = Some s1" by blast
  have k: "splitIndex [para 1500 ''big''] (Num 1000) \<noteq> None"
    by (simp add: demo splitIndex_def)
  have e: "fst (extractOverflowContent 20 [para 1500 ''big''] (Num 1000)) = [placeholder 20]"
    by (simp add: demo extractOverflowContent_def splitIndex_def innerHTML_def trim_def)
  have n: "noBlankRegion ?d"
    by (simp add: demo noBlankRegion_def notBlank_def blank_def regions_def innerHTML_def trim_def
        isWhiteSpace_def)
  from split_and_redistribution_keep_regions_filled [where nodes = "[para 1500 ''big'']"
      and cap = "Num 1000" and br = 20 and s = ?d and fuel = "Suc (Suc 0)" and lay = demoLayout
      and i = 0 and s' = s1] k e n s1
  show ?thesis unfolding s1 by simp
qed


theorem only_latest_check_pending_witness:
  "latestOnly (demoSession [[para 300 ''a'']]) \<and>
   pendingChecks (handleEditorInput 0 (demoSession [[para 300 ''a'']])) = [(1, 500, 0)] \<and>
   pendingChecks (handleEditorInput 0 (handleEditorInput 0 (demoSession [[para 300 ''a'']]))) =
     [(2, 500, 0)] \<and>
   exec (Suc 0) demoLayout (TimerFires 1)
       (handleEditorInput 0 (handleEditorInput 0 (demoSession [[para 300 ''a'']]))) =
     Some (handleEditorInput 0 (handleEditorInput 0 (demoSession [[para 300 ''a'']]))) \<and>
   map_option latestOnly
     (run (Suc 0) demoLayout [InputEvent 0, InputEvent 0, TimerFires 1, TimerFires 2]
        (demoSession [[para 300 ''a'']])) = Some True \<and>
   map_option pendingChecks
     (run (Suc 0) demoLayout [InputEvent 0, InputEvent 0, TimerFires 1, TimerFires 2]
        (demoSession [[para 300 ''a'']])) = Some []"
proof -
  let ?d = "demoSession [[para 300 ''a'']]"
  let ?h = "handleEditorInput 0 ?d"
  have l: "latestOnly ?d" by (simp add: demo latestOnly_def)
  have n: "nextTimerId ?d = 1" by (simp add: demo)
  have "\<exists>s'. run (Suc 0) demoLayout [InputEvent 0, InputEvent 0, TimerFires 1, TimerFires 2] ?d = Some s' \<and>
      pendingChecks s' = []"
    by (simp add: demo run_defs handleEditorInput_def markDocumentAsModified_def
        clearTimeout_def setTimeoutCheck_def)
  then obtain s' where s': "run (Suc 0) demoLayout [InputEvent 0, InputEvent 0, TimerFires 1, TimerFires 2] ?d = Some s'"
    "pendingChecks s' = []" by blast
  note a = only_latest_check_pending [OF l, where fuel = "Suc 0" and lay = demoLayout
      and evs = "[InputEvent 0, InputEvent 0, TimerFires 1, TimerFires 2]" and s' = s' and r = 0]
  from a s'(1) have l': "latestOnly s'" by blast
  from a n have p1: "pendingChecks ?h = [(1, 500, 0)]" "typingTimer ?h = Some 1" by simp_all
  have lh: "latestOnly ?h"
    by (simp add: demo latestOnly_def handleEditorInput_def markDocumentAsModified_def
        clearTimeout_def setTimeoutCheck_def Let_def)
  have nh: "nextTimerId ?h = 2"
    by (simp add: demo handleEditorInput_def markDocumentAsModified_def
        clearTimeout_def setTimeoutCheck_def Let_def)
  note b = only_latest_check_pending [OF lh, where r = 0]
  from b nh have p2: "pendingChecks (handleEditorInput 0 ?h) = [(2, 500, 0)]"
    "typingTimer (handleEditorInput 0 ?h) = Some 2" by simp_all
  have lhh: "latestOnly (handleEditorInput 0 ?h)"
    using p2 by (simp add: demo latestOnly_def handleEditorInput_def markDocumentAsModified_def
        clearTimeout_def setTimeoutCheck_def Let_def)
  from only_latest_check_pending [OF lhh, where tid = 1 and fuel = "Suc 0" and lay = demoLayout] p2(2)
  have st: "exec (Suc 0) demoLayout (TimerFires 1) (handleEditorInput 0 ?h) = Some (handleEditorInput 0 ?h)"
    by simp
  from l p1 p2 st s'(2) l' show ?thesis unfolding s'(1) by simp
qed

end
